theory Spec2Isabelle
  imports Main "HOL-Library.Word"
begin

unbundle bit_operations_syntax

section \<open>Results, errors and panics\<close>

type_synonym byte = "8 word"

definition bindE :: "'e + 'a \<Rightarrow> ('a \<Rightarrow> 'e + 'b) \<Rightarrow> 'e + 'b" where
  "bindE m f = (case m of Inl e \<Rightarrow> Inl e | Inr x \<Rightarrow> f x)"

fun foldE :: "('s \<Rightarrow> 'a \<Rightarrow> 'e + 's) \<Rightarrow> 's \<Rightarrow> 'a list \<Rightarrow> 'e + 's" where
  "foldE f s [] = Inr s"
| "foldE f s (x # xs) = bindE (f s x) (\<lambda>s'. foldE f s' xs)"

lemma bindE_cong [fundef_cong]:
  "m = m' \<Longrightarrow> (\<And>x. m' = Inr x \<Longrightarrow> f x = f' x) \<Longrightarrow> bindE m f = bindE m' f'"
  by (cases m') (simp_all add: bindE_def)

lemma foldE_cong [fundef_cong]:
  "xs = ys \<Longrightarrow> s = s' \<Longrightarrow> (\<And>x a. x \<in> set ys \<Longrightarrow> f a x = f' a x)
   \<Longrightarrow> foldE f s xs = foldE f' s' ys"
proof (induction ys arbitrary: xs s s')
  case Nil
  then show ?case by simp
next
  case (Cons y ys)
  have "foldE f a ys = foldE f' a ys" for a
    by (rule Cons.IH) (simp_all add: Cons.prems)
  then show ?case using Cons.prems by (cases "f' s' y") (simp_all add: bindE_def)
qed

lemma bindE_simps [simp]: "bindE (Inl e) f = Inl e" "bindE (Inr x) f = f x"
  by (simp_all add: bindE_def)

section \<open>Go types and values, as package reflect presents them\<close>

text \<open>The kinds of \<^verbatim>\<open>reflect.Kind\<close>.\<close>

datatype kind =
    Invalid | Bool | IntK | Int8 | Int16 | Int32 | Int64
  | Uint | Uint8 | Uint16 | Uint32 | Uint64 | Uintptr
  | Float32 | Float64 | Complex64 | Complex128
  | Array | Chan | Func | Interface | Map | Pointer | Slice | String | Struct
  | UnsafePointer

text \<open>
  A type is a finite tree. \<open>Basic k\<close> is the predeclared type of a scalar kind
  (\<open>Basic Int32\<close> is \<^verbatim>\<open>int32\<close>); \<open>Named n t\<close> is a defined type
  \<^verbatim>\<open>type n t\<close>, a type of its own with the kind of \<open>t\<close>. A struct field carries
  what \<^verbatim>\<open>reflect.StructField\<close> does; its tag is kept as the string that
  \<^verbatim>\<open>Tag.Get("protobuf")\<close> returns on it. Recursive type declarations are outside
  the model.
\<close>

datatype rtype =
    Basic kind
  | Named string rtype
  | StructOf "sfield list"
  | PtrTo rtype
  | SliceOf rtype
  | ArrayOf nat rtype
  | MapOf rtype rtype
  | InterfaceOf string
and sfield =
    StructField (fName: string) (fPkgPath: string) (fType: rtype) (fTag: string) (fAnonymous: bool)

text \<open>\<^verbatim>\<open>StructField.IsExported\<close>: the package path is empty for an exported field.\<close>

definition IsExported :: "sfield \<Rightarrow> bool" where
  "IsExported f = (fPkgPath f = [])"

fun under :: "rtype \<Rightarrow> rtype" where
  "under (Named n t) = under t"
| "under t = t"

fun Kind :: "rtype \<Rightarrow> kind" where
  "Kind (Basic k) = k"
| "Kind (Named n t) = Kind t"
| "Kind (StructOf fs) = Struct"
| "Kind (PtrTo t) = Pointer"
| "Kind (SliceOf t) = Slice"
| "Kind (ArrayOf n t) = Array"
| "Kind (MapOf k t) = Map"
| "Kind (InterfaceOf n) = Interface"

text \<open>\<^verbatim>\<open>Type.Elem\<close>, \<^verbatim>\<open>Type.Key\<close> and the fields of a struct type. The code
  calls them only after it has checked the kind; elsewhere the model answers with the
  invalid type.\<close>

fun Elem :: "rtype \<Rightarrow> rtype" where
  "Elem (Named n t) = Elem t"
| "Elem (PtrTo t) = t"
| "Elem (SliceOf t) = t"
| "Elem (ArrayOf n t) = t"
| "Elem (MapOf k t) = t"
| "Elem t = Basic Invalid"

fun Key :: "rtype \<Rightarrow> rtype" where
  "Key (Named n t) = Key t"
| "Key (MapOf k t) = k"
| "Key t = Basic Invalid"

fun struct_fields :: "rtype \<Rightarrow> sfield list" where
  "struct_fields (Named n t) = struct_fields t"
| "struct_fields (StructOf fs) = fs"
| "struct_fields t = []"

fun ArrayLen :: "rtype \<Rightarrow> nat" where
  "ArrayLen (Named n t) = ArrayLen t"
| "ArrayLen (ArrayOf n t) = n"
| "ArrayLen t = 0"

text \<open>
  The data of a value. Integers are held as \<^verbatim>\<open>Value.Int\<close> and \<^verbatim>\<open>Value.Uint\<close>
  return them (64 bits, a narrower kind sign- or zero-extended), floats as their IEEE-754
  bit patterns, a string as its bytes, a \<^verbatim>\<open>time.Time\<close> as its instant in
  nanoseconds since the Unix epoch. A slice or a map is \<open>None\<close> when nil; a map is an
  association list in the order \<^verbatim>\<open>MapKeys\<close> lists it; an interface holds the
  dynamic type and value, a pointer its pointee.
\<close>

datatype gval =
    VBool bool
  | VInt "64 word"
  | VUint "64 word"
  | VFloat32 "32 word"
  | VFloat64 "64 word"
  | VString "byte list"
  | VTime int
  | VStruct "gval list"
  | VPtr "gval option"
  | VSlice "gval list option"
  | VArray "gval list"
  | VMap "(gval \<times> gval) list option"
  | VIface "(rtype \<times> gval) option"
  | VOpaque

text \<open>The types the encoder compares with by identity.\<close>

definition timeType :: rtype where
  "timeType = Named ''time.Time'' (StructOf
     [StructField ''wall'' ''time'' (Basic Uint64) [] False,
      StructField ''ext'' ''time'' (Basic Int64) [] False,
      StructField ''loc'' ''time'' (PtrTo (Named ''time.Location'' (StructOf []))) [] False])"

definition sfixed32type :: rtype where "sfixed32type = Named ''protobuf.Sfixed32'' (Basic Int32)"
definition sfixed64type :: rtype where "sfixed64type = Named ''protobuf.Sfixed64'' (Basic Int64)"
definition ufixed32type :: rtype where "ufixed32type = Named ''protobuf.Ufixed32'' (Basic Uint32)"
definition ufixed64type :: rtype where "ufixed64type = Named ''protobuf.Ufixed64'' (Basic Uint64)"
definition bytesType :: rtype where "bytesType = SliceOf (Basic Uint8)"

lemma size_fType [termination_simp]:
  "f \<in> set fs \<Longrightarrow> size (fType f) < Suc (size_list size fs)"
proof -
  assume "f \<in> set fs"
  then have "size f \<le> size_list size fs" by (simp add: size_list_estimation')
  moreover have "size (fType f) < size f" by (cases f) simp
  ultimately show ?thesis by simp
qed

text \<open>\<^verbatim>\<open>reflect.Zero\<close>: the zero value of a type.\<close>

fun Zero :: "rtype \<Rightarrow> gval" where
  "Zero (Basic k) =
     (if k = Bool then VBool False
      else if k \<in> {IntK, Int8, Int16, Int32, Int64} then VInt 0
      else if k \<in> {Uint, Uint8, Uint16, Uint32, Uint64, Uintptr} then VUint 0
      else if k = Float32 then VFloat32 0
      else if k = Float64 then VFloat64 0
      else if k = String then VString []
      else VOpaque)"
| "Zero (Named n t) = (if Named n t = timeType then VTime (- 62135596800000000000) else Zero t)"
| "Zero (StructOf fs) = VStruct (map (\<lambda>f. Zero (fType f)) fs)"
| "Zero (PtrTo t) = VPtr None"
| "Zero (SliceOf t) = VSlice None"
| "Zero (ArrayOf n t) = VArray (replicate n (Zero t))"
| "Zero (MapOf k t) = VMap None"
| "Zero (InterfaceOf n) = VIface None"


section \<open>Errors\<close>

text \<open>
  Every error message of the code is a value. A message built with \<^verbatim>\<open>fmt\<close> keeps
  its arguments instead of the formatted text.
\<close>

datatype error =
    Err string
  | ErrWiretype string nat
  | ErrKind string kind
  | ErrField error string
  | ErrDecodingField sfield error
  | ErrIDReused int rtype
  | ErrNoConstructor rtype
  | ErrReflect string

text \<open>
  Inside the decoder a failure is either an error that a function returned or a panic
  that unwinds to the \<^verbatim>\<open>recover\<close> of \<^verbatim>\<open>DecodeWithConstructors\<close>.
\<close>

datatype failure = Returned error | Panicked error

section \<open>reflect.Value\<close>

text \<open>
  A \<^verbatim>\<open>reflect.Value\<close>: its type, its data and the flags that decide
  \<^verbatim>\<open>CanSet\<close> and \<^verbatim>\<open>CanAddr\<close>. The zero Value is invalid.
\<close>

record Value =
  vtype :: rtype
  vdata :: gval
  flagAddr :: bool
  flagStickyRO :: bool
  flagEmbedRO :: bool

definition ZeroValue :: Value where
  "ZeroValue = \<lparr>vtype = Basic Invalid, vdata = VOpaque, flagAddr = False,
                 flagStickyRO = False, flagEmbedRO = False\<rparr>"

definition VKind :: "Value \<Rightarrow> kind" where "VKind v = Kind (vtype v)"
definition IsValid :: "Value \<Rightarrow> bool" where "IsValid v = (VKind v \<noteq> Invalid)"
definition flagRO :: "Value \<Rightarrow> bool" where "flagRO v = (flagStickyRO v \<or> flagEmbedRO v)"
definition CanAddr :: "Value \<Rightarrow> bool" where "CanAddr v = flagAddr v"
definition CanSet :: "Value \<Rightarrow> bool" where "CanSet v = (flagAddr v \<and> \<not> flagRO v)"

text \<open>What \<^verbatim>\<open>reflect.ValueOf(p).Elem()\<close> is for a pointer \<open>p\<close> to \<open>x\<close> of type \<open>t\<close>,
  and the element of a freshly allocated \<^verbatim>\<open>reflect.New(t)\<close>.\<close>

definition Addressable :: "rtype \<Rightarrow> gval \<Rightarrow> Value" where
  "Addressable t x = \<lparr>vtype = t, vdata = x, flagAddr = True,
                       flagStickyRO = False, flagEmbedRO = False\<rparr>"

definition IsNil :: "Value \<Rightarrow> bool" where
  "IsNil v = (case vdata v of VPtr None \<Rightarrow> True | VSlice None \<Rightarrow> True
              | VMap None \<Rightarrow> True | VIface None \<Rightarrow> True | _ \<Rightarrow> False)"

definition VBoolOf :: "Value \<Rightarrow> bool" where
  "VBoolOf v = (case vdata v of VBool b \<Rightarrow> b | _ \<Rightarrow> False)"
definition VIntOf :: "Value \<Rightarrow> 64 word" where
  "VIntOf v = (case vdata v of VInt w \<Rightarrow> w | _ \<Rightarrow> 0)"
definition VUintOf :: "Value \<Rightarrow> 64 word" where
  "VUintOf v = (case vdata v of VUint w \<Rightarrow> w | _ \<Rightarrow> 0)"
definition VStringOf :: "Value \<Rightarrow> byte list" where
  "VStringOf v = (case vdata v of VString s \<Rightarrow> s | _ \<Rightarrow> [])"

text \<open>
  A float is held as its bit pattern. Converting a \<^verbatim>\<open>float32\<close> to \<^verbatim>\<open>float64\<close> and back
  gives the same bits for every number and infinity; a NaN comes back quiet, with the
  top bit of its mantissa set, so a signalling NaN changes (7fa00000 becomes 7fe00000).
\<close>

definition is_NaN32 :: "32 word \<Rightarrow> bool" where
  "is_NaN32 w = (w AND 0x7F800000 = 0x7F800000 \<and> w AND 0x007FFFFF \<noteq> 0)"

definition quiet32 :: "32 word \<Rightarrow> 32 word" where
  "quiet32 w = (if is_NaN32 w then w OR 0x00400000 else w)"

text \<open>\<^verbatim>\<open>math.Float32bits(float32(v.Float()))\<close>, where \<^verbatim>\<open>Value.Float\<close> widens a
  \<^verbatim>\<open>float32\<close>; \<^verbatim>\<open>math.Float32bits(x)\<close> on an element \<open>x\<close> of a \<^verbatim>\<open>[]float32\<close>, which
  reads the bits as they are; and \<^verbatim>\<open>math.Float64bits(v.Float())\<close>.\<close>

definition VFloat32bits :: "Value \<Rightarrow> 32 word" where
  "VFloat32bits v = (case vdata v of VFloat32 w \<Rightarrow> quiet32 w | _ \<Rightarrow> 0)"
definition Float32bits :: "Value \<Rightarrow> 32 word" where
  "Float32bits v = (case vdata v of VFloat32 w \<Rightarrow> w | _ \<Rightarrow> 0)"
definition VFloat64bits :: "Value \<Rightarrow> 64 word" where
  "VFloat64bits v = (case vdata v of VFloat64 w \<Rightarrow> w | _ \<Rightarrow> 0)"

text \<open>The elements of a slice or an array, and \<^verbatim>\<open>Value.Len\<close> on one.\<close>

definition elems :: "gval \<Rightarrow> gval list" where
  "elems x = (case x of VSlice (Some xs) \<Rightarrow> xs | VArray xs \<Rightarrow> xs | _ \<Rightarrow> [])"

definition VLen :: "Value \<Rightarrow> nat" where
  "VLen v = length (elems (vdata v))"

text \<open>\<^verbatim>\<open>Value.Index\<close> on a slice or an array: an element of a slice is always
  addressable, an element of an array when the array is.\<close>

definition VIndex :: "Value \<Rightarrow> nat \<Rightarrow> Value" where
  "VIndex v i = \<lparr>vtype = Elem (vtype v), vdata = elems (vdata v) ! i,
                  flagAddr = (VKind v = Slice \<or> flagAddr v),
                  flagStickyRO = flagRO v, flagEmbedRO = False\<rparr>"

text \<open>\<^verbatim>\<open>Value.Elem\<close>: the pointee of a pointer (addressable) or the dynamic value of
  an interface (not addressable); the zero Value when nil.\<close>

definition VElem :: "Value \<Rightarrow> Value" where
  "VElem v =
     (if VKind v = Pointer then
        (case vdata v of
           VPtr (Some x) \<Rightarrow> \<lparr>vtype = Elem (vtype v), vdata = x, flagAddr = True,
                               flagStickyRO = flagStickyRO v, flagEmbedRO = flagEmbedRO v\<rparr>
         | _ \<Rightarrow> ZeroValue)
      else if VKind v = Interface then
        (case vdata v of
           VIface (Some (t, x)) \<Rightarrow> \<lparr>vtype = t, vdata = x, flagAddr = False,
                               flagStickyRO = flagRO v, flagEmbedRO = False\<rparr>
         | _ \<Rightarrow> ZeroValue)
      else ZeroValue)"

text \<open>\<^verbatim>\<open>Value.Field\<close>: panics unless the value is a struct with that field. A field
  keeps the struct's addressability; an unexported field is read-only.\<close>

definition VField :: "Value \<Rightarrow> nat \<Rightarrow> error + Value" where
  "VField v i =
     (case vdata v of
        VStruct xs \<Rightarrow>
          if VKind v = Struct \<and> i < length (struct_fields (vtype v)) \<and> i < length xs then
            (let f = struct_fields (vtype v) ! i in
             Inr \<lparr>vtype = fType f, vdata = xs ! i, flagAddr = flagAddr v,
                  flagStickyRO = (flagStickyRO v \<or> (\<not> IsExported f \<and> \<not> fAnonymous f)),
                  flagEmbedRO = (\<not> IsExported f \<and> fAnonymous f)\<rparr>)
          else Inl (ErrReflect ''reflect: Field index out of range'')
      | _ \<Rightarrow> Inl (ErrReflect ''reflect: call of reflect.Value.Field on non-struct Value''))"

text \<open>\<^verbatim>\<open>Value.FieldByIndex\<close>: after the first step, a pointer to a struct is
  followed; a nil one panics.\<close>

fun FieldByIndex_from :: "bool \<Rightarrow> Value \<Rightarrow> nat list \<Rightarrow> error + Value" where
  "FieldByIndex_from first v [] = Inr v"
| "FieldByIndex_from first v (x # index) =
     (if \<not> first \<and> VKind v = Pointer \<and> Kind (Elem (vtype v)) = Struct then
        (if IsNil v then
           Inl (ErrReflect ''reflect: indirection through nil pointer to embedded struct'')
         else bindE (VField (VElem v) x) (\<lambda>w. FieldByIndex_from False w index))
      else bindE (VField v x) (\<lambda>w. FieldByIndex_from False w index))"

definition FieldByIndex :: "Value \<Rightarrow> nat list \<Rightarrow> error + Value" where
  "FieldByIndex v index = FieldByIndex_from True v index"


section \<open>The wire primitives (package protowire)\<close>

text \<open>
  The codec calls \<^verbatim>\<open>google.golang.org/protobuf/encoding/protowire\<close> for tags,
  varints, fixed-width integers and length-delimited bytes. Its functions are modelled
  as that library documents them: a varint is little-endian base 128 with the high bit
  as continuation, at most ten bytes, the tenth at most 1; a tag is the varint of
  \<open>fieldNumber << 3 | wireType\<close>; a consumer returns the number of bytes read, or a
  negative error code. A field number (\<^verbatim>\<open>protowire.Number\<close>, an int32) is an
  \<open>int\<close>, a wire type (\<^verbatim>\<open>protowire.Type\<close>) a \<open>nat\<close>.
\<close>

abbreviation (input) VarintType :: nat where "VarintType \<equiv> 0"
abbreviation (input) Fixed64Type :: nat where "Fixed64Type \<equiv> 1"
abbreviation (input) BytesType :: nat where "BytesType \<equiv> 2"
abbreviation (input) Fixed32Type :: nat where "Fixed32Type \<equiv> 5"

abbreviation (input) errCodeTruncated :: int where "errCodeTruncated \<equiv> - 1"
abbreviation (input) errCodeFieldNumber :: int where "errCodeFieldNumber \<equiv> - 2"
abbreviation (input) errCodeOverflow :: int where "errCodeOverflow \<equiv> - 3"

function varint_bytes :: "int \<Rightarrow> byte list" where
  "varint_bytes n =
     (if n < 128 then [of_int n] else of_int (n mod 128 + 128) # varint_bytes (n div 128))"
  by pat_completeness auto

termination
  by (relation "measure nat") auto

declare varint_bytes.simps [simp del]

definition AppendVarint :: "byte list \<Rightarrow> 64 word \<Rightarrow> byte list" where
  "AppendVarint b v = b @ varint_bytes (uint v)"

text \<open>\<open>consume_varint i b\<close> reads a varint whose first byte is the \<open>i\<close>-th of the
  encoding (counted from 0); the tenth byte may only carry bit 63.\<close>

fun consume_varint :: "nat \<Rightarrow> byte list \<Rightarrow> int \<times> int" where
  "consume_varint i [] = (0, errCodeTruncated)"
| "consume_varint i (y # b) =
     (if i \<ge> 9 then (if uint y < 2 then (uint y, 1) else (0, errCodeOverflow))
      else if uint y < 128 then (uint y, 1)
      else (case consume_varint (Suc i) b of
              (v, n) \<Rightarrow> if n < 0 then (0, n) else (uint y - 128 + 128 * v, n + 1)))"

definition ConsumeVarint :: "byte list \<Rightarrow> 64 word \<times> int" where
  "ConsumeVarint b = (case consume_varint 0 b of (v, n) \<Rightarrow> (of_int v, n))"

definition EncodeTag :: "int \<Rightarrow> nat \<Rightarrow> 64 word" where
  "EncodeTag num t = push_bit 3 (word_of_int num) OR word_of_nat (t AND 7)"

definition DecodeTag :: "64 word \<Rightarrow> int \<times> nat" where
  "DecodeTag x =
     (if drop_bit 3 x > 0x7FFFFFFF then (- 1, 0)
      else (uint (drop_bit 3 x), unat (x AND 7)))"

definition ConsumeTag :: "byte list \<Rightarrow> int \<times> nat \<times> int" where
  "ConsumeTag b =
     (case ConsumeVarint b of (v, n) \<Rightarrow>
        if n < 0 then (0, 0, n)
        else (case DecodeTag v of (num, t) \<Rightarrow>
                if num < 1 then (0, 0, errCodeFieldNumber) else (num, t, n)))"

definition AppendFixed32 :: "byte list \<Rightarrow> 32 word \<Rightarrow> byte list" where
  "AppendFixed32 b v =
     b @ [ucast v, ucast (drop_bit 8 v), ucast (drop_bit 16 v), ucast (drop_bit 24 v)]"

definition ConsumeFixed32 :: "byte list \<Rightarrow> 32 word \<times> int" where
  "ConsumeFixed32 b =
     (if length b < 4 then (0, errCodeTruncated)
      else (ucast (b ! 0) OR push_bit 8 (ucast (b ! 1)) OR push_bit 16 (ucast (b ! 2))
              OR push_bit 24 (ucast (b ! 3)), 4))"

definition AppendFixed64 :: "byte list \<Rightarrow> 64 word \<Rightarrow> byte list" where
  "AppendFixed64 b v =
     b @ [ucast v, ucast (drop_bit 8 v), ucast (drop_bit 16 v), ucast (drop_bit 24 v),
          ucast (drop_bit 32 v), ucast (drop_bit 40 v), ucast (drop_bit 48 v),
          ucast (drop_bit 56 v)]"

definition ConsumeFixed64 :: "byte list \<Rightarrow> 64 word \<times> int" where
  "ConsumeFixed64 b =
     (if length b < 8 then (0, errCodeTruncated)
      else (ucast (b ! 0) OR push_bit 8 (ucast (b ! 1)) OR push_bit 16 (ucast (b ! 2))
              OR push_bit 24 (ucast (b ! 3)) OR push_bit 32 (ucast (b ! 4))
              OR push_bit 40 (ucast (b ! 5)) OR push_bit 48 (ucast (b ! 6))
              OR push_bit 56 (ucast (b ! 7)), 8))"

text \<open>\<^verbatim>\<open>ConsumeBytes\<close>: a varint length, then that many bytes; the length is checked
  against what is left of the buffer.\<close>

definition ConsumeBytes :: "byte list \<Rightarrow> byte list \<times> int" where
  "ConsumeBytes b =
     (case ConsumeVarint b of (m, n) \<Rightarrow>
        if n < 0 then ([], n)
        else if uint m > int (length (drop (nat n) b)) then ([], errCodeTruncated)
        else (take (nat (uint m)) (drop (nat n) b), n + uint m))"

definition EncodeBool :: "bool \<Rightarrow> 64 word" where
  "EncodeBool b = (if b then 1 else 0)"

section \<open>The field resolver\<close>

text \<open>Go's \<^verbatim>\<open>int\<close> is 64 bits wide (the decoder refuses a narrower one), so the
  running field number wraps there; a \<^verbatim>\<open>protowire.Number\<close> is an int32.\<close>

definition wrap_signed :: "nat \<Rightarrow> int \<Rightarrow> int" where
  "wrap_signed w x = (x + 2 ^ (w - 1)) mod 2 ^ w - 2 ^ (w - 1)"

definition to_int :: "int \<Rightarrow> int" where "to_int x = wrap_signed 64 x"
definition Number :: "int \<Rightarrow> int" where "Number x = wrap_signed 32 x"

text \<open>\<^verbatim>\<open>strings.Split(s, ",")\<close> and \<^verbatim>\<open>strconv.Atoi\<close>: an optional sign and
  decimal digits, within the range of \<^verbatim>\<open>int\<close>.\<close>

fun split_on :: "char \<Rightarrow> string \<Rightarrow> string list" where
  "split_on c [] = [[]]"
| "split_on c (x # xs) =
     (if x = c then [] # split_on c xs
      else (case split_on c xs of [] \<Rightarrow> [[x]] | p # ps \<Rightarrow> (x # p) # ps))"

definition is_digit :: "char \<Rightarrow> bool" where
  "is_digit c = (48 \<le> (of_char c :: nat) \<and> (of_char c :: nat) \<le> 57)"

definition digits_value :: "string \<Rightarrow> int" where
  "digits_value ds = foldl (\<lambda>a c. 10 * a + int (of_char c - 48)) 0 ds"

definition Atoi :: "string \<Rightarrow> int option" where
  "Atoi s =
     (let neg = (s \<noteq> [] \<and> hd s = CHR ''-'');
          ds = (if s \<noteq> [] \<and> (hd s = CHR ''-'' \<or> hd s = CHR ''+'') then tl s else s);
          n = (if neg then - digits_value ds else digits_value ds)
      in if ds = [] \<or> \<not> list_all is_digit ds then None
         else if - (2 ^ 63) \<le> n \<and> n < 2 ^ 63 then Some n
         else None)"

text \<open>\<^verbatim>\<open>ParseTag\<close>: of the comma-separated parts of the tag, the last number is the
  field number and the last part that is no number is the name.\<close>

definition ParseTag :: "sfield \<Rightarrow> int \<times> string" where
  "ParseTag field =
     (if fTag field = [] then (0, [])
      else foldl (\<lambda>(idn, name) part.
                    case Atoi part of None \<Rightarrow> (idn, part) | Some i \<Rightarrow> (i, name))
             (0, []) (split_on CHR '','' (fTag field)))"

record ProtoField =
  ID :: int
  Name :: string
  Index :: "nat list"
  Field :: sfield

text \<open>
  \<^verbatim>\<open>innerFieldIndexes\<close> threads the running number \<^verbatim>\<open>*id\<close>: the model takes it and
  returns it with the entries. \<^verbatim>\<open>NumField\<close> panics on a type that is no struct.
  \<open>innerFields\<close> is the loop over the fields from position \<open>i\<close> on.
\<close>

function (sequential) innerFieldIndexes :: "int \<Rightarrow> rtype \<Rightarrow> error + (ProtoField list \<times> int)"
and innerFields :: "int \<Rightarrow> nat \<Rightarrow> sfield list \<Rightarrow> error + (ProtoField list \<times> int)" where
  "innerFieldIndexes idn (PtrTo t) = innerFieldIndexes idn t"
| "innerFieldIndexes idn (Named n t) = innerFieldIndexes idn t"
| "innerFieldIndexes idn (StructOf fs) = innerFields idn 0 fs"
| "innerFieldIndexes idn t = Inl (ErrReflect ''reflect: NumField of non-struct type'')"
| "innerFields idn i [] = Inr ([], idn)"
| "innerFields idn i (f # fs) =
     (let id1 = to_int (idn + 1);
          (tid, name) = ParseTag f;
          id2 = (if tid \<noteq> 0 then tid else id1)
      in if fAnonymous f then
           bindE (innerFieldIndexes (to_int (id2 - 1)) (fType f)) (\<lambda>(inner, id3).
           bindE (innerFields id3 (Suc i) fs) (\<lambda>(out, id4).
           Inr (map (\<lambda>p. p\<lparr>Index := i # Index p\<rparr>) inner @ out, id4)))
         else
           bindE (innerFields id2 (Suc i) fs) (\<lambda>(out, id4).
           Inr (\<lparr>ID = Number id2, Name = name, Index = [i], Field = f\<rparr> # out, id4)))"
  by pat_completeness auto

termination
proof (relation "measure (\<lambda>x. case x of Inl (_, t) \<Rightarrow> size t
                                     | Inr (_, _, fs) \<Rightarrow> size_list size fs)")
  fix f :: sfield
  have "size (fType f) < size f" by (cases f) simp
  then show "\<And>idn i fs x xa xb y.
       (Inl (to_int (xb - 1), fType f), Inr (idn, i, f # fs))
       \<in> measure (\<lambda>x. case x of Inl (_, t) \<Rightarrow> size t
                                 | Inr (_, _, fs) \<Rightarrow> size_list size fs)"
    by simp
qed auto


text \<open>
  \<^verbatim>\<open>ProtoFields\<close> keeps a cache from types to entry lists (a package variable under a
  lock); the model passes the cache in and returns it. The loop over \<^verbatim>\<open>seen\<close> finds
  the first number that an earlier entry already has.
\<close>

type_synonym fieldCache = "rtype \<rightharpoonup> ProtoField list"

fun reused :: "int list \<Rightarrow> ProtoField list \<Rightarrow> int option" where
  "reused seen [] = None"
| "reused seen (p # ps) = (if ID p \<in> set seen then Some (ID p) else reused (ID p # seen) ps)"

definition ProtoFields :: "fieldCache \<Rightarrow> rtype \<Rightarrow> (error + ProtoField list) \<times> fieldCache" where
  "ProtoFields cache t =
     (case cache t of
        Some idx \<Rightarrow> (Inr idx, cache)
      | None \<Rightarrow>
          (case innerFieldIndexes 0 t of
             Inl e \<Rightarrow> (Inl e, cache)
           | Inr (idx, _) \<Rightarrow>
               (case reused [] idx of
                  Some i \<Rightarrow> (Inl (ErrIDReused i t), cache)
                | None \<Rightarrow> (Inr idx, cache(t \<mapsto> idx)))))"

text \<open>What \<^verbatim>\<open>ProtoFields\<close> computes for a type that is not cached. The encoder and the
  decoder below call this: on every cache that \<^verbatim>\<open>ProtoFields\<close> itself has filled, the
  cached function returns the same (lemma \<open>ProtoFields_cached\<close>).\<close>

definition resolveFields :: "rtype \<Rightarrow> error + ProtoField list" where
  "resolveFields t = fst (ProtoFields Map.empty t)"


section \<open>Methods and the generator registry\<close>

text \<open>
  The codec asks a value whether it implements \<^verbatim>\<open>encoding.BinaryMarshaler\<close>,
  \<^verbatim>\<open>encoding.BinaryUnmarshaler\<close> or \<^verbatim>\<open>InterfaceMarshaler\<close>. The methods belong to
  the program that uses the package, so the model takes them as a table from types to
  methods: \<open>None\<close> when the type does not implement the interface, otherwise the method
  as a function of the receiver's data. \<^verbatim>\<open>UnmarshalBinary\<close> returns the receiver as it
  leaves it. A marshaller's bytes are taken to be a non-nil slice.
\<close>

text \<open>
  Modelled from the spec: the generator registry. The file that declares
  \<^verbatim>\<open>GeneratorID\<close>, \<^verbatim>\<open>InterfaceMarshaler\<close>, \<^verbatim>\<open>InterfaceGeneratorFunc\<close> and the
  variable \<^verbatim>\<open>generators\<close> with its \<^verbatim>\<open>get\<close> is not among the sources. By the spec a
  Type Tag is an opaque identifier of 8 bytes and the registry maps a tag to a
  zero-argument factory, or to nothing. A factory is modelled by the value it returns,
  with its dynamic type.
\<close>

record package =
  MarshalBinary :: "rtype \<Rightarrow> (gval \<Rightarrow> error + byte list) option"
  UnmarshalBinary :: "rtype \<Rightarrow> (gval \<Rightarrow> byte list \<Rightarrow> error option \<times> gval) option"
  MarshalID :: "rtype \<Rightarrow> (gval \<Rightarrow> byte list) option"
  generators :: "byte list \<rightharpoonup> rtype \<times> gval"

abbreviation (input) GeneratorID_len :: nat where "GeneratorID_len \<equiv> 8"

section \<open>The encoder\<close>

text \<open>The encoder is a \<^verbatim>\<open>bytes.Buffer\<close>: the bytes written so far. Each method takes
  the buffer and returns it; a panic is \<open>Inl\<close>.\<close>

type_synonym encoder = "byte list"

definition Write :: "encoder \<Rightarrow> byte list \<Rightarrow> encoder" where
  "Write en b = en @ b"

definition uvarint :: "encoder \<Rightarrow> 64 word \<Rightarrow> encoder" where
  "uvarint en v = Write en (AppendVarint [] v)"

definition svarint :: "encoder \<Rightarrow> 64 word \<Rightarrow> encoder" where
  "svarint en v = uvarint en v"

definition keyTag :: "encoder \<Rightarrow> int \<Rightarrow> nat \<Rightarrow> encoder" where
  "keyTag en key t = uvarint en (EncodeTag key t)"

definition u32 :: "encoder \<Rightarrow> 32 word \<Rightarrow> encoder" where
  "u32 en v = Write en (AppendFixed32 [] v)"

definition u64 :: "encoder \<Rightarrow> 64 word \<Rightarrow> encoder" where
  "u64 en v = Write en (AppendFixed64 [] v)"

text \<open>\<^verbatim>\<open>en.Bytes()\<close>: a buffer nothing was written to returns the nil slice.\<close>

definition Bytes :: "encoder \<Rightarrow> byte list option" where
  "Bytes en = (if en = [] then None else Some en)"

text \<open>\<^verbatim>\<open>time.Time.UnixNano\<close>, computed in int64.\<close>

definition UnixNano :: "Value \<Rightarrow> 64 word" where
  "UnixNano v = (case vdata v of VTime i \<Rightarrow> word_of_int i | _ \<Rightarrow> 0)"

text \<open>\<^verbatim>\<open>getEncoder\<close>: the value's own \<^verbatim>\<open>MarshalBinary\<close>, or its address's when the
  value is addressable.\<close>

definition getEncoder :: "package \<Rightarrow> Value \<Rightarrow> (error + byte list) option" where
  "getEncoder c val =
     (case MarshalBinary c (vtype val) of
        Some f \<Rightarrow> Some (f (vdata val))
      | None \<Rightarrow>
          if CanAddr val then
            (case MarshalBinary c (PtrTo (vtype val)) of
               Some f \<Rightarrow> Some (f (VPtr (Some (vdata val))))
             | None \<Rightarrow> None)
          else None)"

text \<open>The packed payload of a slice: one call per element, on a buffer of its own.\<close>

definition packed_elems :: "(encoder \<Rightarrow> Value \<Rightarrow> encoder) \<Rightarrow> Value \<Rightarrow> encoder" where
  "packed_elems f slval = foldl (\<lambda>packed i. f packed (VIndex slval i)) [] [0..<VLen slval]"

text \<open>The bytes of a slice or array of \<^verbatim>\<open>uint8\<close>.\<close>

definition bytes_of :: "Value \<Rightarrow> byte list" where
  "bytes_of v = map (\<lambda>x. case x of VUint w \<Rightarrow> ucast w | _ \<Rightarrow> 0) (elems (vdata v))"

text \<open>\<^verbatim>\<open>MapKeys\<close> and \<^verbatim>\<open>MapIndex\<close>: neither result is addressable.\<close>

definition MapKeys :: "Value \<Rightarrow> Value list" where
  "MapKeys v =
     (case vdata v of
        VMap (Some m) \<Rightarrow>
          map (\<lambda>(k, x). \<lparr>vtype = Key (vtype v), vdata = k, flagAddr = False,
                         flagStickyRO = flagRO v, flagEmbedRO = False\<rparr>) m
      | _ \<Rightarrow> [])"

definition MapIndex :: "Value \<Rightarrow> Value \<Rightarrow> Value" where
  "MapIndex v key =
     (case vdata v of
        VMap (Some m) \<Rightarrow>
          (case map_of m (vdata key) of
             Some x \<Rightarrow> \<lparr>vtype = Elem (vtype v), vdata = x, flagAddr = False,
                         flagStickyRO = (flagRO v \<or> flagRO key), flagEmbedRO = False\<rparr>
           | None \<Rightarrow> ZeroValue)
      | _ \<Rightarrow> ZeroValue)"

text \<open>The first switch of \<^verbatim>\<open>encoder.value\<close>, on the identity of the type: \<open>None\<close> when
  no case matches.\<close>

definition value_by_type :: "encoder \<Rightarrow> int \<Rightarrow> Value \<Rightarrow> encoder option" where
  "value_by_type en key val =
     (let t = vtype val in
      if t = Basic Bool then
        Some (uvarint (keyTag en key VarintType) (EncodeBool (VBoolOf val)))
      else if t = Basic IntK \<or> t = Basic Int32 \<or> t = Basic Int64 then
        Some (svarint (keyTag en key VarintType) (VIntOf val))
      else if t = timeType then
        Some (u64 (keyTag en key Fixed64Type) (UnixNano val))
      else if t = Basic Uint \<or> t = Basic Uint32 \<or> t = Basic Uint64 then
        Some (uvarint (keyTag en key VarintType) (VUintOf val))
      else if t = sfixed32type then
        Some (u32 (keyTag en key Fixed32Type) (ucast (VIntOf val)))
      else if t = sfixed64type then
        Some (u64 (keyTag en key Fixed64Type) (VIntOf val))
      else if t = ufixed32type then
        Some (u32 (keyTag en key Fixed32Type) (ucast (VUintOf val)))
      else if t = ufixed64type then
        Some (u64 (keyTag en key Fixed64Type) (VUintOf val))
      else if t = Basic Float32 then
        Some (u32 (keyTag en key Fixed32Type) (VFloat32bits val))
      else if t = Basic Float64 then
        Some (u64 (keyTag en key Fixed64Type) (VFloat64bits val))
      else if t = Basic String then
        (let b = VStringOf val in
         Some (Write (uvarint (keyTag en key BytesType) (of_nat (length b))) b))
      else None)"

text \<open>The end of \<^verbatim>\<open>encoder.slice\<close> and \<^verbatim>\<open>encoder.sliceReflect\<close>: the packed
  payload as one length-delimited field.\<close>

definition write_packed :: "encoder \<Rightarrow> int \<Rightarrow> encoder \<Rightarrow> encoder" where
  "write_packed en key packed =
     (let b = packed in Write (uvarint (keyTag en key BytesType) (of_nat (length b))) b)"

text \<open>The type switch of \<^verbatim>\<open>encoder.slice\<close>: \<open>None\<close> for the default case.\<close>

definition slice_by_type :: "encoder \<Rightarrow> int \<Rightarrow> Value \<Rightarrow> encoder option" where
  "slice_by_type en key slval =
     (let t = vtype slval in
      if t = SliceOf (Basic Bool) then
        Some (write_packed en key
          (packed_elems (\<lambda>packed x. uvarint packed (if VBoolOf x then 1 else 0)) slval))
      else if t = SliceOf (Basic Int32) \<or> t = SliceOf (Basic Int64) then
        Some (write_packed en key (packed_elems (\<lambda>packed x. svarint packed (VIntOf x)) slval))
      else if t = SliceOf (Basic Uint32) \<or> t = SliceOf (Basic Uint64) then
        Some (write_packed en key (packed_elems (\<lambda>packed x. uvarint packed (VUintOf x)) slval))
      else if t = SliceOf sfixed32type then
        Some (write_packed en key (packed_elems (\<lambda>packed x. u32 packed (ucast (VIntOf x))) slval))
      else if t = SliceOf sfixed64type then
        Some (write_packed en key (packed_elems (\<lambda>packed x. u64 packed (VIntOf x)) slval))
      else if t = SliceOf ufixed32type then
        Some (write_packed en key (packed_elems (\<lambda>packed x. u32 packed (ucast (VUintOf x))) slval))
      else if t = SliceOf ufixed64type then
        Some (write_packed en key (packed_elems (\<lambda>packed x. u64 packed (VUintOf x)) slval))
      else if t = SliceOf (Basic Float32) then
        Some (write_packed en key (packed_elems (\<lambda>packed x. u32 packed (Float32bits x)) slval))
      else if t = SliceOf (Basic Float64) then
        Some (write_packed en key (packed_elems (\<lambda>packed x. u64 packed (VFloat64bits x)) slval))
      else if t = SliceOf (Basic Uint8) then
        Some (Write (uvarint (keyTag en key BytesType) (of_nat (VLen slval))) (bytes_of slval))
      else if t = SliceOf (Basic String) then
        Some (foldl (\<lambda>en' i.
                let subSlice = VStringOf (VIndex slval i) in
                Write (uvarint (keyTag en' key BytesType) (of_nat (length subSlice))) subSlice)
              en [0..<VLen slval])
      else None)"

text \<open>The measure of the encoder's recursion: the size of the data of a valid value.\<close>

definition vsize :: "Value \<Rightarrow> nat" where
  "vsize v = (if IsValid v then Suc (size (vdata v)) else 0)"

lemma vsize_VElem: "IsValid val \<Longrightarrow> \<not> IsNil val \<Longrightarrow> vsize (VElem val) < vsize val"
  by (auto simp: vsize_def VElem_def IsNil_def ZeroValue_def IsValid_def VKind_def
           split: gval.splits option.splits)

lemma vsize_le: "vsize v \<le> Suc (size (vdata v))"
  by (simp add: vsize_def)

lemma size_nth_le: "i < length xs \<Longrightarrow> size (xs ! i) \<le> size_list size xs"
  by (metis nth_mem size_list_estimation' order_refl)

lemma size_VField: "VField v i = Inr w \<Longrightarrow> size (vdata w) < size (vdata v)"
  by (auto simp: VField_def Let_def less_Suc_eq_le size_nth_le split: gval.splits if_splits)

lemma size_VElem_le: "size (vdata (VElem v)) \<le> size (vdata v)"
  by (auto simp: VElem_def ZeroValue_def split: gval.splits option.splits)

lemma size_FieldByIndex_from:
  "FieldByIndex_from first v index = Inr w \<Longrightarrow> index \<noteq> [] \<Longrightarrow> size (vdata w) < size (vdata v)"
proof (induction index arbitrary: first v)
  case Nil
  then show ?case by simp
next
  case (Cons x index)
  let ?u = "if \<not> first \<and> VKind v = Pointer \<and> Kind (Elem (vtype v)) = Struct then VElem v else v"
  from Cons.prems obtain w' where f: "VField ?u x = Inr w'"
    and r: "FieldByIndex_from False w' index = Inr w"
    by (auto simp: bindE_def split: if_splits sum.splits)
  have "size (vdata w') < size (vdata ?u)" using f by (rule size_VField)
  also have "\<dots> \<le> size (vdata v)" by (simp add: size_VElem_le)
  finally have 1: "size (vdata w') < size (vdata v)" .
  show ?case
  proof (cases "index = []")
    case True
    with r 1 show ?thesis by simp
  next
    case False
    from Cons.IH [OF r False] 1 show ?thesis by simp
  qed
qed

lemma innerFields_Index_nonempty:
  "(innerFieldIndexes idn t = Inr (ps, idn') \<longrightarrow> (\<forall>p \<in> set ps. Index p \<noteq> []))"
  "(innerFields idn i fs = Inr (ps, idn') \<longrightarrow> (\<forall>p \<in> set ps. Index p \<noteq> []))"
proof (induction idn t and idn i fs arbitrary: ps idn' and ps idn' rule: innerFieldIndexes_innerFields.induct)
  case (6 idn i f fs)
  then show ?case
    by (auto simp: Let_def bindE_def split: prod.splits sum.splits if_splits)
qed auto

lemma resolveFields_Index_nonempty:
  "resolveFields t = Inr ps \<Longrightarrow> p \<in> set ps \<Longrightarrow> Index p \<noteq> []"
  using innerFields_Index_nonempty(1) [of 0 t ps]
  by (auto simp: resolveFields_def ProtoFields_def split: sum.splits prod.splits option.splits)

lemma size_VIndex: "i < VLen v \<Longrightarrow> size (vdata (VIndex v i)) < size (vdata v)"
  by (auto simp: VLen_def VIndex_def elems_def less_Suc_eq_le size_nth_le le_SucI
           split: gval.splits option.splits)

lemma size_map_entry:
  "(k, x) \<in> set m \<Longrightarrow> size k < size (VMap (Some m)) \<and> size x < size (VMap (Some m))"
proof -
  assume "(k, x) \<in> set m"
  then have "size_prod size size (k, x) \<le> size_list (size_prod size size) m"
    by (simp add: size_list_estimation')
  then show ?thesis by simp
qed

lemma size_MapKeys: "k \<in> set (MapKeys v) \<Longrightarrow> size (vdata k) < size (vdata v)"
  by (auto simp: MapKeys_def split: gval.splits option.splits dest: size_map_entry)

lemma size_MapIndex: "k \<in> set (MapKeys v) \<Longrightarrow> size (vdata (MapIndex v k)) < size (vdata v)"
  by (auto simp: MapKeys_def MapIndex_def ZeroValue_def
           split: gval.splits option.splits dest!: map_of_SomeD size_map_entry)

lemma size_resolved_field:
  "resolveFields (vtype sval) = Inr b \<Longrightarrow> x \<in> set b \<Longrightarrow> FieldByIndex sval (Index x) = Inr ba
   \<Longrightarrow> size (vdata ba) < size (vdata sval)"
  unfolding FieldByIndex_def
  by (rule size_FieldByIndex_from) (auto dest: resolveFields_Index_nonempty)

text \<open>
  \<^verbatim>\<open>encoder.value\<close>, \<^verbatim>\<open>encoder.message\<close>, \<^verbatim>\<open>encoder.slice\<close>,
  \<^verbatim>\<open>encoder.sliceReflect\<close> and \<^verbatim>\<open>encoder.handleMap\<close>. A panic inside
  \<^verbatim>\<open>message\<close> once the loop has started is re-raised with the name of the current
  field; the loop variable still holds the last field when the loop is over.
\<close>

function encoder_value :: "package \<Rightarrow> encoder \<Rightarrow> int \<Rightarrow> Value \<Rightarrow> error + encoder"
  and encoder_message :: "package \<Rightarrow> encoder \<Rightarrow> Value \<Rightarrow> error + encoder"
  and encoder_slice :: "package \<Rightarrow> encoder \<Rightarrow> int \<Rightarrow> Value \<Rightarrow> error + encoder"
  and encoder_sliceReflect :: "package \<Rightarrow> encoder \<Rightarrow> int \<Rightarrow> Value \<Rightarrow> error + encoder"
  and handleMap :: "package \<Rightarrow> encoder \<Rightarrow> int \<Rightarrow> Value \<Rightarrow> error + encoder"
where
  "encoder_value c en key val =
     (case value_by_type en key val of
        Some en' \<Rightarrow> Inr en'
      | None \<Rightarrow>
         (let k = VKind val in
          if k = Bool then
            Inr (uvarint (keyTag en key VarintType) (if VBoolOf val then 1 else 0))
          else if k = IntK \<or> k = Int32 \<or> k = Int64 then
            Inr (svarint (keyTag en key VarintType) (VIntOf val))
          else if k = Uint32 \<or> k = Uint64 then
            Inr (uvarint (keyTag en key VarintType) (VUintOf val))
          else if k = Float32 then
            Inr (u32 (keyTag en key Fixed32Type) (VFloat32bits val))
          else if k = Float64 then
            Inr (u64 (keyTag en key Fixed64Type) (VFloat64bits val))
          else if k = String then
            (let b = VStringOf val in
             Inr (Write (uvarint (keyTag en key BytesType) (of_nat (length b))) b))
          else if k = Struct then
            (case getEncoder c val of
               Some r \<Rightarrow>
                 bindE r (\<lambda>b.
                 Inr (Write (uvarint (keyTag en key BytesType) (of_nat (length b))) b))
             | None \<Rightarrow>
                 bindE (encoder_message c [] val) (\<lambda>b.
                 Inr (Write (uvarint (keyTag en key BytesType) (of_nat (length b))) b)))
          else if k = Slice \<or> k = Array then encoder_slice c en key val
          else if k = Pointer then
            (if IsNil val then Inr en else encoder_value c en key (VElem val))
          else if k = Interface then
            (if IsNil val then Inr en
             else
               (case MarshalBinary c (vtype (VElem val)) of
                  Some enc \<Rightarrow>
                    bindE (enc (vdata (VElem val))) (\<lambda>bytes.
                    (let en1 = keyTag en key BytesType;
                         idn = (case MarshalID c (vtype (VElem val)) of
                                 Some im \<Rightarrow> im (vdata (VElem val))
                               | None \<Rightarrow> replicate GeneratorID_len 0);
                         ok = (MarshalID c (vtype (VElem val)) \<noteq> None
                               \<and> generators c idn \<noteq> None);
                         size = (if ok then length bytes + GeneratorID_len else length bytes);
                         en2 = uvarint en1 (of_nat size);
                         en3 = (if ok then Write en2 idn else en2)
                     in Inr (Write en3 bytes)))
                | None \<Rightarrow> encoder_value c en key (VElem val)))
          else if k = Map then handleMap c en key val
          else Inl (ErrKind ''unsupported field Kind'' k)))"
| "encoder_message c en sval =
     (if \<not> IsValid sval then
        Inl (ErrReflect ''reflect: call of reflect.Value.Type on zero Value'')
      else
        (case resolveFields (vtype sval) of
           Inl e \<Rightarrow> Inl e
         | Inr protoFields \<Rightarrow>
             if protoFields = [] then Inr en
             else
               bindE (foldE (\<lambda>acc index.
                        case FieldByIndex sval (Index index) of
                          Inl e \<Rightarrow> Inl (ErrField e (fName (Field index)))
                        | Inr field \<Rightarrow>
                            if CanSet field then
                              (case encoder_value c (fst acc) (ID index) field of
                                 Inl e \<Rightarrow> Inl (ErrField e (fName (Field index)))
                               | Inr en' \<Rightarrow> Inr (en', False))
                            else Inr acc)
                      (en, True) protoFields)
                 (\<lambda>(en', noPublicFields).
                    if noPublicFields then
                      Inl (ErrField (Err ''struct has no serializable fields'')
                             (fName (Field (last protoFields))))
                    else Inr en')))"
| "encoder_slice c en key slval =
     (case slice_by_type en key slval of
        Some en' \<Rightarrow> Inr en'
      | None \<Rightarrow> encoder_sliceReflect c en key slval)"
| "encoder_sliceReflect c en key slval =
     (let kind = VKind slval; slelt = Elem (vtype slval) in
      if kind \<noteq> Slice \<and> kind \<noteq> Array then Inl (Err ''no slice passed'')
      else if Kind slelt = Bool then
        Inr (write_packed en key
          (packed_elems (\<lambda>packed x. uvarint packed (if VBoolOf x then 1 else 0)) slval))
      else if Kind slelt = IntK \<or> Kind slelt = Int32 \<or> Kind slelt = Int64 then
        Inr (write_packed en key (packed_elems (\<lambda>packed x. svarint packed (VIntOf x)) slval))
      else if Kind slelt = Uint32 \<or> Kind slelt = Uint64 then
        Inr (write_packed en key (packed_elems (\<lambda>packed x. uvarint packed (VUintOf x)) slval))
      else if Kind slelt = Float32 then
        Inr (write_packed en key (packed_elems (\<lambda>packed x. u32 packed (VFloat32bits x)) slval))
      else if Kind slelt = Float64 then
        Inr (write_packed en key (packed_elems (\<lambda>packed x. u64 packed (VFloat64bits x)) slval))
      else if Kind slelt = Uint8 then
        (if slelt = Basic Uint8 then
           Inr (Write (uvarint (keyTag en key BytesType) (of_nat (VLen slval))) (bytes_of slval))
         else Inl (ErrReflect ''reflect: value cannot be converted to type []uint8''))
      else if (Kind slelt = Slice \<or> Kind slelt = Array) \<and> Kind (Elem slelt) \<noteq> Uint8 then
        Inl (Err ''protobuf: no support for 2-dimensional array except for [][]byte'')
      else foldE (\<lambda>en' i. encoder_value c en' key (VIndex slval i)) en [0..<VLen slval])"
| "handleMap c en key mpval =
     foldE (\<lambda>en' mkey.
        (let mval = MapIndex mpval mkey; kind = VKind mval in
         if kind = Pointer \<and> IsNil mval then Inl (Err ''proto: map has nil element'')
         else if (kind = Slice \<or> kind = Array) \<and> Kind (Elem (vtype mval)) \<noteq> Uint8 then
           Inl (Err ''protobuf: map only support []byte or string as repeated value'')
         else
           bindE (encoder_value c [] 1 mkey) (\<lambda>packed1.
           bindE (encoder_value c packed1 2 mval) (\<lambda>packed.
           Inr (Write (uvarint (keyTag en' key BytesType) (of_nat (length packed))) packed)))))
       en (MapKeys mpval)"
  by pat_completeness auto


termination
  apply (relation "measures [\<lambda>x. case x of Inl (Inl (c, en, key, v)) \<Rightarrow> vsize v 
       | Inl (Inr (c, en, v)) \<Rightarrow> Suc (size (vdata v))
       | Inr (Inl (c, en, key, v)) \<Rightarrow> Suc (size (vdata v))
       | Inr (Inr (Inl (c, en, key, v))) \<Rightarrow> Suc (size (vdata v))
       | Inr (Inr (Inr (c, en, key, v))) \<Rightarrow> Suc (size (vdata v)),
      \<lambda>x. case x of Inl (Inl _) \<Rightarrow> 3 | Inl (Inr _) \<Rightarrow> 1 | Inr (Inl _) \<Rightarrow> 2 | Inr (Inr (Inl _)) \<Rightarrow> 1 | Inr (Inr (Inr _)) \<Rightarrow> (1::nat)]")
  apply (simp_all add: vsize_VElem IsValid_def)
  apply (auto simp: vsize_def IsValid_def size_VIndex size_MapKeys size_MapIndex
              dest: size_resolved_field)
  done


declare encoder_value.simps [simp del] encoder_message.simps [simp del]
  encoder_slice.simps [simp del] encoder_sliceReflect.simps [simp del] handleMap.simps [simp del]

text \<open>
  \<^verbatim>\<open>Encode\<close>. The argument is an \<^verbatim>\<open>interface{}\<close>: \<open>None\<close> when nil, otherwise the
  dynamic type and value. The result is the error, or the byte slice (\<open>None\<close> when nil).
\<close>

definition ValueOf :: "rtype \<Rightarrow> gval \<Rightarrow> Value" where
  "ValueOf t x = \<lparr>vtype = t, vdata = x, flagAddr = False,
                   flagStickyRO = False, flagEmbedRO = False\<rparr>"

definition Encode :: "package \<Rightarrow> (rtype \<times> gval) option \<Rightarrow> error + byte list option" where
  "Encode c structPtr =
     (case structPtr of
        None \<Rightarrow> Inr None
      | Some (t, x) \<Rightarrow>
          (case MarshalBinary c t of
             Some bu \<Rightarrow> (case bu x of Inl e \<Rightarrow> Inl e | Inr b \<Rightarrow> Inr (Some b))
           | None \<Rightarrow>
               (let val = ValueOf t x in
                if VKind val \<noteq> Pointer then Inl (Err ''encode takes a pointer to struct'')
                else (case encoder_message c [] (VElem val) of
                        Inl e \<Rightarrow> Inl e
                      | Inr en \<Rightarrow> Inr (Bytes en)))))"


section \<open>The decoder\<close>

text \<open>
  \<^verbatim>\<open>Constructors\<close>: from an interface type to the function that instantiates it,
  modelled by the value the function returns with its dynamic type. The decoder holds
  the table as \<^verbatim>\<open>nm\<close>.
\<close>

type_synonym Constructors = "rtype \<rightharpoonup> rtype \<times> gval"

text \<open>
  The first switch of \<^verbatim>\<open>decoder.value\<close>: the value is broken out of the buffer by
  wire type. The result is the integer \<open>v\<close>, the bytes \<open>vb\<close> and the rest of the
  buffer.
\<close>

definition consume_wire :: "nat \<Rightarrow> byte list \<Rightarrow> failure + (64 word \<times> byte list \<times> byte list)" where
  "consume_wire wiretype buf =
     (if wiretype = VarintType then
        (case ConsumeVarint buf of (v, n) \<Rightarrow>
           if n \<le> 0 then Inl (Returned (Err ''bad protobuf varint value''))
           else Inr (v, [], drop (nat n) buf))
      else if wiretype = Fixed32Type then
        (case ConsumeFixed32 buf of (res, n) \<Rightarrow>
           if n \<le> 0 then Inl (Returned (Err ''bad protobuf 32-bit value''))
           else Inr (ucast res, [], drop (nat n) buf))
      else if wiretype = Fixed64Type then
        (case ConsumeFixed64 buf of (res, n) \<Rightarrow>
           if n \<le> 0 then Inl (Returned (Err ''bad protobuf 64-bit value''))
           else Inr (res, [], drop (nat n) buf))
      else if wiretype = BytesType then
        (case ConsumeBytes buf of (vb, n) \<Rightarrow>
           if n \<le> 0 then Inl (Returned (Err ''bad protobuf length-delimited value''))
           else Inr (0, vb, drop (nat n) buf))
      else Inl (Returned (Err ''unknown protobuf wire-type'')))"

text \<open>\<^verbatim>\<open>decoder.value\<close> with the call of \<^verbatim>\<open>putvalue\<close> left open: the recursive
  functions below pass themselves in. The result is the rest of the buffer and the data
  of the destination as the call leaves it.\<close>

definition decoder_value_with ::
  "(nat \<Rightarrow> Value \<Rightarrow> 64 word \<Rightarrow> byte list \<Rightarrow> failure + gval) \<Rightarrow>
   nat \<Rightarrow> byte list \<Rightarrow> Value \<Rightarrow> failure + (byte list \<times> gval)" where
  "decoder_value_with putv wiretype buf val =
     bindE (consume_wire wiretype buf) (\<lambda>(v, vb, rem).
     bindE (putv wiretype val v vb) (\<lambda>x. Inr (rem, x)))"

lemma decoder_value_with_cong [fundef_cong]:
  "wiretype = wiretype' \<Longrightarrow> buf = buf' \<Longrightarrow> val = val' \<Longrightarrow>
   (\<And>v vb rem. consume_wire wiretype' buf' = Inr (v, vb, rem)
      \<Longrightarrow> putv wiretype' val' v vb = putv' wiretype' val' v vb) \<Longrightarrow>
   decoder_value_with putv wiretype buf val = decoder_value_with putv' wiretype' buf' val'"
  by (auto simp: decoder_value_with_def bindE_def split: sum.splits)

definition decodeSignedInt :: "nat \<Rightarrow> 64 word \<Rightarrow> failure + 64 word" where
  "decodeSignedInt wiretype v =
     (if wiretype = VarintType then Inr v
      else if wiretype = Fixed32Type then Inr (scast (ucast v :: 32 word))
      else if wiretype = Fixed64Type then Inr v
      else Inl (Returned (Err ''bad wiretype for sint'')))"

text \<open>\<^verbatim>\<open>SetInt\<close> and \<^verbatim>\<open>SetUint\<close> store into the width of the destination's kind.\<close>

definition SetInt :: "Value \<Rightarrow> 64 word \<Rightarrow> gval" where
  "SetInt val x =
     (if VKind val = Int32 then VInt (scast (ucast x :: 32 word)) else VInt x)"

definition SetUint :: "Value \<Rightarrow> 64 word \<Rightarrow> gval" where
  "SetUint val x =
     (if VKind val = Uint32 then VUint (ucast (ucast x :: 32 word))
      else if VKind val = Uint8 then VUint (ucast (ucast x :: 8 word))
      else VUint x)"

text \<open>\<^verbatim>\<open>time.Unix(sv/int64(time.Second), sv%int64(time.Second))\<close>: Go's division
  truncates, and seconds and nanoseconds add up to \<open>sv\<close> again.\<close>

definition time_Unix :: "int \<Rightarrow> int \<Rightarrow> gval" where
  "time_Unix sec nsec = VTime (sec * 1000000000 + nsec)"

definition go_quot :: "int \<Rightarrow> int \<Rightarrow> int" where
  "go_quot a b = sgn a * sgn b * (\<bar>a\<bar> div \<bar>b\<bar>)"

definition go_rem :: "int \<Rightarrow> int \<Rightarrow> int" where
  "go_rem a b = a - b * go_quot a b"

text \<open>\<^verbatim>\<open>decoder.instantiate\<close>: the constructor's value for an interface type (a panic
  when there is none), a pointer to a zero value otherwise.\<close>

definition instantiate :: "Constructors \<Rightarrow> rtype \<Rightarrow> failure + rtype \<times> gval" where
  "instantiate nm t =
     (if Kind t = Interface then
        (case nm t of
           None \<Rightarrow> Inl (Panicked (ErrNoConstructor t))
         | Some newfunc \<Rightarrow> Inr newfunc)
      else Inr (PtrTo t, VPtr (Some (Zero t))))"

text \<open>The loop at the head of \<^verbatim>\<open>decoder.message\<close>: every settable field that is no
  interface is set to its zero value.\<close>

definition set_field :: "gval \<Rightarrow> nat \<Rightarrow> gval \<Rightarrow> gval" where
  "set_field s i x = (case s of VStruct xs \<Rightarrow> VStruct (xs[i := x]) | _ \<Rightarrow> s)"

definition reset_fields :: "Value \<Rightarrow> gval" where
  "reset_fields sval =
     foldl (\<lambda>s i. case VField (sval\<lparr>vdata := s\<rparr>) i of
                     Inl e \<Rightarrow> s
                   | Inr field \<Rightarrow>
                       if VKind field \<noteq> Interface \<and> CanSet field
                       then set_field s i (Zero (vtype field)) else s)
       (vdata sval) [0..<length (struct_fields (vtype sval))]"

text \<open>The cursor of \<^verbatim>\<open>decoder.message\<close>: it moves on while the entry's number is
  below the number read.\<close>

function advance :: "ProtoField list \<Rightarrow> nat \<Rightarrow> int \<Rightarrow> nat" where
  "advance fs fieldi fieldnum =
     (if fieldi < length fs \<and> ID (fs ! fieldi) < fieldnum
      then advance fs (Suc fieldi) fieldnum else fieldi)"
  by pat_completeness auto

termination
  by (relation "measure (\<lambda>(fs, fieldi, fieldnum). length fs - fieldi)") auto

declare advance.simps [simp del]

text \<open>Writing the data \<open>x\<close> where \<^verbatim>\<open>FieldByIndex\<close> reads: through struct fields and,
  after the first step, through pointers to structs.\<close>

fun put_index :: "bool \<Rightarrow> gval \<Rightarrow> nat list \<Rightarrow> gval \<Rightarrow> gval" where
  "put_index first s [] x = x"
| "put_index first s (i # index) x =
     (case s of
        VStruct xs \<Rightarrow> VStruct (xs[i := put_index False (xs ! i) index x])
      | VPtr (Some (VStruct xs)) \<Rightarrow>
          if first then s
          else VPtr (Some (VStruct (xs[i := put_index False (xs ! i) index x])))
      | _ \<Rightarrow> s)"

text \<open>\<^verbatim>\<open>reflect.New(t)\<close>: a pointer to a zero value.\<close>

definition New :: "rtype \<Rightarrow> gval" where
  "New t = VPtr (Some (Zero t))"

text \<open>
  The walk along the index of the matching entry in \<^verbatim>\<open>decoder.message\<close>: for every
  prefix of the index the field is looked up from the struct, and a nil pointer found
  there is set to a new zero value. \<^verbatim>\<open>Set\<close> panics on a field that cannot be set. The
  result is the struct's data and the last field looked up.
\<close>

fun alloc_path :: "Value \<Rightarrow> Value \<Rightarrow> nat list \<Rightarrow> nat list \<Rightarrow> failure + (gval \<times> Value)" where
  "alloc_path sval field path [] = Inr (vdata sval, field)"
| "alloc_path sval field path (idn # index) =
     (case FieldByIndex sval (path @ [idn]) of
        Inl e \<Rightarrow> Inl (Panicked e)
      | Inr f \<Rightarrow>
          if VKind f = Pointer \<and> IsNil f then
            (if CanSet f then
               alloc_path (sval\<lparr>vdata := put_index True (vdata sval) (path @ [idn])
                                             (New (Elem (vtype f)))\<rparr>)
                 (f\<lparr>vdata := New (Elem (vtype f))\<rparr>) (path @ [idn]) index
             else Inl (Panicked (ErrReflect
                    ''reflect: reflect.Value.Set using value obtained using unexported field'')))
          else alloc_path sval f (path @ [idn]) index)"

text \<open>\<^verbatim>\<open>reflect.Append\<close> panics unless its first argument is a slice.\<close>

definition Append :: "Value \<Rightarrow> gval \<Rightarrow> failure + gval" where
  "Append slval x =
     (if VKind slval \<noteq> Slice then
        Inl (Panicked (ErrReflect ''reflect: call of reflect.Append on non-slice Value''))
      else Inr (VSlice (Some (elems (vdata slval) @ [x]))))"

text \<open>\<^verbatim>\<open>SetMapIndex\<close>: the value of a key that is there is replaced, a new key is
  added.\<close>

fun map_update :: "gval \<Rightarrow> gval \<Rightarrow> (gval \<times> gval) list \<Rightarrow> (gval \<times> gval) list" where
  "map_update k x [] = [(k, x)]"
| "map_update k x ((k', x') # m) =
     (if k = k' then (k, x) # m else (k', x') # map_update k x m)"

definition SetMapIndex :: "Value \<Rightarrow> gval \<Rightarrow> gval \<Rightarrow> gval" where
  "SetMapIndex slval k x =
     (case vdata slval of
        VMap (Some m) \<Rightarrow> VMap (Some (map_update k x m))
      | _ \<Rightarrow> VMap (Some [(k, x)]))"

text \<open>The wire type of the elements of a packed payload, in \<^verbatim>\<open>decoder.slice\<close>.\<close>

definition packed_wiretype :: "rtype \<Rightarrow> nat" where
  "packed_wiretype eltype =
     (if Kind eltype \<in> {Bool, Int32, Int64, IntK, Uint32, Uint64, Uint} then
        (if eltype = sfixed32type then Fixed32Type
         else if eltype = sfixed64type then Fixed64Type
         else if eltype = ufixed32type then Fixed32Type
         else if eltype = ufixed64type then Fixed64Type
         else VarintType)
      else if Kind eltype = Float32 then Fixed32Type
      else Fixed64Type)"

text \<open>How \<^verbatim>\<open>DecodeWithConstructors\<close> recovers: a panic becomes the returned error.\<close>

definition recovered :: "failure \<Rightarrow> error" where
  "recovered f = (case f of Returned e \<Rightarrow> e | Panicked e \<Rightarrow> e)"

record decoder =
  nm :: Constructors


text \<open>The measure of a type in the decoder's recursion.\<close>

definition tsize :: "rtype \<Rightarrow> nat" where
  "tsize t = (if Kind t = Invalid then 0 else Suc (size t))"

lemma tsize_Elem:
  "Kind t = Pointer \<or> Kind t = Slice \<or> Kind t = Array \<or> Kind t = Map \<Longrightarrow> tsize (Elem t) < tsize t"
  by (induction t) (auto simp: tsize_def)

lemma tsize_Elem2:
  "Kind t = Slice \<or> Kind t = Array \<Longrightarrow> Suc (2 * tsize (Elem t)) < 2 * tsize t"
  using tsize_Elem [of t] by auto

lemma tsize_VElem:
  "VKind val = Pointer \<Longrightarrow> tsize (vtype (VElem (val\<lparr>vdata := p\<rparr>))) < tsize (vtype val)"
  using tsize_Elem [of "vtype val"]
  by (auto simp: VElem_def VKind_def ZeroValue_def tsize_def split: gval.splits option.splits)

lemma consume_varint_length:
  "consume_varint i b = (v, n) \<Longrightarrow> n \<le> int (length b)"
proof (induction i b arbitrary: v n rule: consume_varint.induct)
  case (1 i)
  then show ?case by simp
next
  case (2 i y b)
  then show ?case
    by (auto split: if_splits prod.splits)
qed

lemma consume_varint_nonzero: "consume_varint i b = (v, n) \<Longrightarrow> n \<noteq> 0"
proof (induction i b arbitrary: v n rule: consume_varint.induct)
  case (1 i)
  then show ?case by simp
next
  case (2 i y b)
  then show ?case
    by (auto split: if_splits prod.splits)
qed

lemma ConsumeVarint_length: "ConsumeVarint b = (v, n) \<Longrightarrow> n \<le> int (length b) \<and> n \<noteq> 0"
  by (auto simp: ConsumeVarint_def split: prod.splits
           dest: consume_varint_length consume_varint_nonzero)

lemma drop_shorter: "0 < n \<Longrightarrow> n \<le> int (length b) \<Longrightarrow> length (drop (nat n) b) < length b"
  by (cases b) auto

lemma ConsumeBytes_length:
  "ConsumeBytes b = (vb, n) \<Longrightarrow> 0 < n \<Longrightarrow> n \<le> int (length b) \<and> length vb < length b"
  by (auto simp: ConsumeBytes_def split: prod.splits if_splits dest!: ConsumeVarint_length)

lemma consume_wire_length:
  "consume_wire wiretype buf = Inr (v, vb, rem) \<Longrightarrow> length vb < length buf \<and> length rem < length buf"
  by (auto simp: consume_wire_def ConsumeFixed32_def ConsumeFixed64_def
           split: if_splits prod.splits
           dest!: ConsumeVarint_length ConsumeBytes_length intro!: drop_shorter)

lemma decoder_value_with_length:
  "decoder_value_with putv wiretype buf val = Inr (rem, x) \<Longrightarrow> length rem < length buf"
  by (auto simp: decoder_value_with_def bindE_def split: sum.splits dest: consume_wire_length)

lemma ConsumeTag_length:
  "ConsumeTag buf = (num, t, n) \<Longrightarrow> 0 < n \<Longrightarrow> length (drop (nat n) buf) < length buf"
  by (auto simp: ConsumeTag_def split: prod.splits if_splits
           dest!: ConsumeVarint_length intro!: drop_shorter)

text \<open>
  \<^verbatim>\<open>decoder.putvalue\<close>, \<^verbatim>\<open>decoder.slice\<close> with its loop over a packed payload,
  \<^verbatim>\<open>decoder.mapEntry\<close> with its loop over the value's fields, \<^verbatim>\<open>decoder.message\<close>
  with its loop over the buffer, and \<^verbatim>\<open>DecodeWithConstructors\<close>, which the interface
  case calls again through \<^verbatim>\<open>Decode\<close>. Each returns the data of its destination as
  the call leaves it; a call that fails returns the failure alone. Go's \<^verbatim>\<open>int\<close> and
  \<^verbatim>\<open>uint\<close> are 64 bits wide, so the check for a 32-bit machine never fires.
  \<^verbatim>\<open>Set\<close>'s check that a constructed value is assignable is not modelled: a factory is
  taken to return a value that fits its destination.
\<close>

function putvalue :: "package \<Rightarrow> decoder \<Rightarrow> nat \<Rightarrow> Value \<Rightarrow> 64 word \<Rightarrow> byte list \<Rightarrow> failure + gval"
  and decoder_slice :: "package \<Rightarrow> decoder \<Rightarrow> Value \<Rightarrow> byte list \<Rightarrow> failure + gval"
  and slice_loop :: "package \<Rightarrow> decoder \<Rightarrow> nat \<Rightarrow> Value \<Rightarrow> Value \<Rightarrow> byte list \<Rightarrow> failure + gval"
  and mapEntry :: "package \<Rightarrow> decoder \<Rightarrow> Value \<Rightarrow> byte list \<Rightarrow> failure + gval"
  and mapEntry_loop :: "package \<Rightarrow> decoder \<Rightarrow> Value \<Rightarrow> byte list \<Rightarrow> failure + gval"
  and decoder_message :: "package \<Rightarrow> decoder \<Rightarrow> byte list \<Rightarrow> Value \<Rightarrow> failure + gval"
  and message_loop ::
    "package \<Rightarrow> decoder \<Rightarrow> ProtoField list \<Rightarrow> byte list \<Rightarrow> nat \<Rightarrow> Value \<Rightarrow> failure + gval"
  and DecodeWithConstructors ::
    "package \<Rightarrow> byte list \<Rightarrow> (rtype \<times> gval) option \<Rightarrow> Constructors
     \<Rightarrow> error + (rtype \<times> gval) option"
where
  "putvalue c de wiretype val v vb =
     (if \<not> CanSet val then Inr (vdata val)
      else
        (let k = VKind val in
         if k = Bool then
           (if wiretype \<noteq> VarintType then
              Inl (Returned (ErrWiretype ''bad wiretype for bool'' wiretype))
            else if v > 1 then Inl (Returned (Err ''invalid bool value''))
            else Inr (VBool (v \<noteq> 0)))
         else if k = IntK \<or> k = Int32 \<or> k = Int64 then
           bindE (decodeSignedInt wiretype v) (\<lambda>sv. Inr (SetInt val sv))
         else if k = Uint \<or> k = Uint32 \<or> k = Uint64 then
           (if wiretype = VarintType then Inr (SetUint val v)
            else if wiretype = Fixed32Type then Inr (SetUint val (ucast (ucast v :: 32 word)))
            else if wiretype = Fixed64Type then Inr (SetUint val v)
            else Inl (Returned (Err ''bad wiretype for uint'')))
         else if k = Float32 then
           (if wiretype \<noteq> Fixed32Type then Inl (Returned (Err ''bad wiretype for float32''))
            else Inr (VFloat32 (quiet32 (ucast v))))
         else if k = Float64 then
           (if wiretype \<noteq> Fixed64Type then Inl (Returned (Err ''bad wiretype for float64''))
            else Inr (VFloat64 v))
         else if k = String then
           (if wiretype \<noteq> BytesType then Inl (Returned (Err ''bad wiretype for string''))
            else Inr (VString vb))
         else if k = Struct then
           (if vtype val = timeType then
              bindE (decodeSignedInt wiretype v) (\<lambda>sv.
              Inr (time_Unix (go_quot (sint sv) 1000000000) (go_rem (sint sv) 1000000000)))
            else
              (case UnmarshalBinary c (PtrTo (vtype val)) of
                 Some enc \<Rightarrow>
                   (case enc (VPtr (Some (vdata val))) vb of
                      (Some e, x) \<Rightarrow> Inl (Returned e)
                    | (None, x) \<Rightarrow> Inr (case x of VPtr (Some y) \<Rightarrow> y | _ \<Rightarrow> vdata val))
               | None \<Rightarrow>
                   if wiretype \<noteq> 2 then
                     Inl (Returned (Err ''bad wiretype for embedded message''))
                   else decoder_message c de vb val))
         else if k = Pointer then
           bindE (if IsNil val then
                    bindE (instantiate (nm de) (Elem (vtype val))) (\<lambda>(t, p). Inr p)
                  else Inr (vdata val)) (\<lambda>p.
           bindE (putvalue c de wiretype (VElem (val\<lparr>vdata := p\<rparr>)) v vb) (\<lambda>x.
           Inr (case p of VPtr (Some y) \<Rightarrow> VPtr (Some x) | _ \<Rightarrow> p)))
         else if k = Slice \<or> k = Array then
           (if wiretype \<noteq> BytesType then
              Inl (Returned (Err ''bad wiretype for repeated field''))
            else decoder_slice c de val vb)
         else if k = Map then
           (if wiretype \<noteq> BytesType then
              Inl (Returned (Err ''bad wiretype for repeated field''))
            else mapEntry c de (if IsNil val then val\<lparr>vdata := VMap (Some [])\<rparr> else val) vb)
         else if k = Interface then
           bindE (if IsNil val then
                    (case (if GeneratorID_len < length vb
                           then generators c (take GeneratorID_len vb) else None) of
                       None \<Rightarrow>
                         bindE (instantiate (nm de) (vtype val)) (\<lambda>dyn. Inr (vb, Some dyn))
                     | Some g \<Rightarrow> Inr (drop GeneratorID_len vb, Some g))
                  else Inr (vb, case vdata val of VIface d \<Rightarrow> d | _ \<Rightarrow> None)) (\<lambda>(data, d).
           (case d of
              None \<Rightarrow> Inl (Panicked (ErrReflect ''reflect: nil interface value''))
            | Some (t, x) \<Rightarrow>
                (case UnmarshalBinary c t of
                   Some enc \<Rightarrow>
                     if wiretype \<noteq> BytesType then Inl (Returned (Err ''bad wiretype for bytes''))
                     else
                       (case enc x data of
                          (Some e, x') \<Rightarrow> Inl (Returned e)
                        | (None, x') \<Rightarrow> Inr (VIface (Some (t, x'))))
                 | None \<Rightarrow>
                     (case DecodeWithConstructors c vb (Some (t, x)) Map.empty of
                        Inl e \<Rightarrow> Inl (Returned e)
                      | Inr r \<Rightarrow> Inr (VIface r)))))
         else Inl (Panicked (ErrKind ''unsupported value kind'' k))))"
| "decoder_slice c de slval vb =
     (let eltype = Elem (vtype slval);
          val = Addressable eltype (Zero eltype);
          ek = Kind eltype
      in
      if VKind slval \<noteq> Slice \<and> VKind slval \<noteq> Array then
        Inl (Panicked (ErrReflect ''reflect: Elem of invalid type''))
      else if ek \<in> {Bool, Int32, Int64, IntK, Uint32, Uint64, Uint} \<or> ek = Float32
              \<or> ek = Float64
      then slice_loop c de (packed_wiretype eltype) slval val vb
      else if ek = Uint8 then
        (if VKind slval = Array then
           (if VLen slval \<noteq> length vb then
              Inl (Returned (Err ''array length and buffer length differ''))
            else Inr (VArray (map (\<lambda>b. VUint (ucast b)) vb)))
         else Inr (VSlice (Some (map (\<lambda>b. VUint (ucast b)) vb))))
      else
        bindE (putvalue c de 2 val 0 vb) (\<lambda>x.
        if VKind slval \<noteq> Slice then Inl (Returned (Err ''append to non-slice''))
        else Append slval x))"
| "slice_loop c de wiretype slval val vb =
     (if vb = [] then Inr (vdata slval)
      else
        bindE (decoder_value_with (putvalue c de) wiretype vb val) (\<lambda>(rem, x).
        bindE (Append slval x) (\<lambda>s.
        slice_loop c de wiretype (slval\<lparr>vdata := s\<rparr>) (val\<lparr>vdata := x\<rparr>) rem)))"
| "mapEntry c de slval vb =
     (let k = Addressable (Key (vtype slval)) (Zero (Key (vtype slval)));
          v = Addressable (Elem (vtype slval)) (Zero (Elem (vtype slval)))
      in
      case ConsumeTag vb of (fieldnum, wiretype, n) \<Rightarrow>
        if n \<le> 0 then Inl (Returned (Err ''bad protobuf field key''))
        else
          bindE (decoder_value_with (putvalue c de) wiretype (drop (nat n) vb) k) (\<lambda>(buf, kx).
          bindE (mapEntry_loop c de v buf) (\<lambda>vx.
          if \<not> IsValid k \<or> \<not> IsValid v then
            Inl (Returned (Err ''proto: bad map data: missing key/val''))
          else Inr (SetMapIndex slval kx vx))))"
| "mapEntry_loop c de v buf =
     (if buf = [] then Inr (vdata v)
      else
        (case ConsumeTag buf of (fieldnum, wiretype, n) \<Rightarrow>
           if n \<le> 0 then Inl (Returned (Err ''bad protobuf field key''))
           else
             bindE (decoder_value_with (putvalue c de) wiretype (drop (nat n) buf) v) (\<lambda>(rem, x).
             mapEntry_loop c de (v\<lparr>vdata := x\<rparr>) rem)))"
| "decoder_message c de buf sval =
     (if VKind sval \<noteq> Struct then Inl (Returned (Err ''not a struct''))
      else
        (case resolveFields (vtype sval) of
           Inl e \<Rightarrow> Inl (Panicked e)
         | Inr fs \<Rightarrow> message_loop c de fs buf 0 (sval\<lparr>vdata := reset_fields sval\<rparr>)))"
| "message_loop c de fs buf fieldi sval =
     (if buf = [] then Inr (vdata sval)
      else
        (case ConsumeTag buf of (fieldnum, wiretype, n) \<Rightarrow>
           if n \<le> 0 then Inl (Returned (Err ''bad protobuf field key''))
           else
             (let fieldi1 = advance fs fieldi fieldnum;
                  found = (fieldi1 < length fs \<and> ID (fs ! fieldi1) = fieldnum)
              in
              bindE (if found then alloc_path sval ZeroValue [] (Index (fs ! fieldi1))
                     else Inr (vdata sval, ZeroValue)) (\<lambda>(s, field).
              (case decoder_value_with (putvalue c de) wiretype (drop (nat n) buf) field of
                 Inl (Returned err) \<Rightarrow>
                   if fieldi1 < length fs then
                     Inl (Returned (ErrDecodingField (Field (fs ! fieldi1)) err))
                   else Inl (Returned err)
               | Inl (Panicked e) \<Rightarrow> Inl (Panicked e)
               | Inr (rem, x) \<Rightarrow>
                   message_loop c de fs rem fieldi1
                     (sval\<lparr>vdata := (if found then put_index True s (Index (fs ! fieldi1)) x
                                      else s)\<rparr>))))))"
| "DecodeWithConstructors c buf structPtr cons =
     (case structPtr of
        None \<Rightarrow> Inr None
      | Some (t, x) \<Rightarrow>
          (case UnmarshalBinary c t of
             Some bu \<Rightarrow>
               (case bu x buf of (Some e, x') \<Rightarrow> Inl e | (None, x') \<Rightarrow> Inr (Some (t, x')))
           | None \<Rightarrow>
               (let val = ValueOf t x in
                if VKind val \<noteq> Pointer then Inl (Err ''decode has been given a non pointer type'')
                else
                  (case decoder_message c \<lparr>nm = cons\<rparr> buf (VElem val) of
                     Inl f \<Rightarrow> Inl (recovered f)
                   | Inr s \<Rightarrow> Inr (Some (t, case x of VPtr (Some y) \<Rightarrow> VPtr (Some s) | _ \<Rightarrow> x))))))"
  by pat_completeness auto

termination
  apply (relation "measures [
     \<lambda>x. case x of
        Inl (Inl (Inl (c, de, wiretype, val, v, vb))) \<Rightarrow> length vb
      | Inl (Inl (Inr (c, de, slval, vb))) \<Rightarrow> length vb
      | Inl (Inr (Inl (c, de, wiretype, slval, val, vb))) \<Rightarrow> length vb
      | Inl (Inr (Inr (c, de, slval, vb))) \<Rightarrow> length vb
      | Inr (Inl (Inl (c, de, v, buf))) \<Rightarrow> length buf
      | Inr (Inl (Inr (c, de, buf, sval))) \<Rightarrow> length buf
      | Inr (Inr (Inl (c, de, fs, buf, fieldi, sval))) \<Rightarrow> length buf
      | Inr (Inr (Inr (c, buf, structPtr, cons))) \<Rightarrow> length buf,
     \<lambda>x. case x of
        Inl (Inl (Inl _)) \<Rightarrow> 4
      | Inl (Inl (Inr _)) \<Rightarrow> 4
      | Inl (Inr (Inl _)) \<Rightarrow> 0
      | Inl (Inr (Inr _)) \<Rightarrow> 0
      | Inr (Inl (Inl _)) \<Rightarrow> 0
      | Inr (Inl (Inr _)) \<Rightarrow> 1
      | Inr (Inr (Inl _)) \<Rightarrow> 0
      | Inr (Inr (Inr _)) \<Rightarrow> (2::nat),
     \<lambda>x. case x of
        Inl (Inl (Inl (c, de, wiretype, val, v, vb))) \<Rightarrow> 2 * tsize (vtype val) + 1
      | Inl (Inl (Inr (c, de, slval, vb))) \<Rightarrow> 2 * tsize (vtype slval)
      | _ \<Rightarrow> 0]")
  apply (simp_all add: tsize_VElem)
  apply (auto simp: tsize_Elem2 VKind_def Addressable_def
              dest: consume_wire_length decoder_value_with_length ConsumeTag_length)
  done


declare putvalue.simps [simp del] decoder_slice.simps [simp del] slice_loop.simps [simp del]
  mapEntry.simps [simp del] mapEntry_loop.simps [simp del] decoder_message.simps [simp del]
  message_loop.simps [simp del] DecodeWithConstructors.simps [simp del]

text \<open>\<^verbatim>\<open>decoder.value\<close>.\<close>

definition decoder_value ::
  "package \<Rightarrow> decoder \<Rightarrow> nat \<Rightarrow> byte list \<Rightarrow> Value \<Rightarrow> failure + (byte list \<times> gval)" where
  "decoder_value c de wiretype buf val = decoder_value_with (putvalue c de) wiretype buf val"

text \<open>\<^verbatim>\<open>Decode\<close>: no constructors.\<close>

definition Decode :: "package \<Rightarrow> byte list \<Rightarrow> (rtype \<times> gval) option \<Rightarrow> error + (rtype \<times> gval) option" where
  "Decode c buf structPtr = DecodeWithConstructors c buf structPtr Map.empty"


text \<open>
  A record of the wire format, taken alone: a tag that \<^verbatim>\<open>ConsumeTag\<close> accepts and a
  payload that the switch of \<^verbatim>\<open>decoder.value\<close> consumes to the last byte. Its number is
  the field number of the tag.
\<close>

definition wf_record :: "byte list \<Rightarrow> bool" where
  "wf_record r =
     (case ConsumeTag r of (num, wt, n) \<Rightarrow>
        0 < n \<and> (case consume_wire wt (drop (nat n) r) of
                   Inl e \<Rightarrow> False
                 | Inr (v, vb, rem) \<Rightarrow> rem = []))"

definition record_num :: "byte list \<Rightarrow> int" where
  "record_num r = fst (ConsumeTag r)"


section \<open>Byte slices and their backing arrays\<close>

text \<open>
  A Go slice is a header: a backing array, the offset of the first element in it, a
  length and a capacity. The heap is the list of the arrays allocated so far. The
  decoder hands out slices of the buffer it was given, so what a later \<^verbatim>\<open>append\<close> can
  overwrite depends on the capacity of the header, which the byte lists above do not
  have. The definitions here repeat \<^verbatim>\<open>decoder.value\<close> on headers, for a destination
  that is a slice of bytes.
\<close>

record bslice =
  s_arr :: nat
  s_off :: nat
  s_len :: nat
  s_cap :: nat

type_synonym heap = "byte list list"

text \<open>The elements of a slice, and a header that lies within its array.\<close>

definition view :: "heap \<Rightarrow> bslice \<Rightarrow> byte list" where
  "view h s = take (s_len s) (drop (s_off s) (h ! s_arr s))"

definition valid :: "heap \<Rightarrow> bslice \<Rightarrow> bool" where
  "valid h s = (s_arr s < length h \<and> s_len s \<le> s_cap s
                \<and> s_off s + s_cap s \<le> length (h ! s_arr s))"

text \<open>The slice expressions \<^verbatim>\<open>s[n:]\<close>, \<^verbatim>\<open>s[:m]\<close> and \<^verbatim>\<open>s[:m:c]\<close>.\<close>

definition slice_from :: "bslice \<Rightarrow> nat \<Rightarrow> bslice" where
  "slice_from s n = \<lparr>s_arr = s_arr s, s_off = s_off s + n, s_len = s_len s - n,
                      s_cap = s_cap s - n\<rparr>"

definition slice_to :: "bslice \<Rightarrow> nat \<Rightarrow> bslice" where
  "slice_to s m = s\<lparr>s_len := m\<rparr>"

definition slice_full :: "bslice \<Rightarrow> nat \<Rightarrow> nat \<Rightarrow> bslice" where
  "slice_full s m c = s\<lparr>s_len := m, s_cap := c\<rparr>"

text \<open>
  Go's \<^verbatim>\<open>append\<close>: within the capacity the new elements are written into the backing
  array behind the slice; beyond it a new array is allocated, with the old elements
  copied and some spare capacity \<open>grow\<close>, which the language leaves to the runtime.
\<close>

definition go_append :: "nat \<Rightarrow> heap \<Rightarrow> bslice \<Rightarrow> byte list \<Rightarrow> heap \<times> bslice" where
  "go_append grow h s xs =
     (if s_len s + length xs \<le> s_cap s then
        (h[s_arr s := take (s_off s + s_len s) (h ! s_arr s) @ xs
                        @ drop (s_off s + s_len s + length xs) (h ! s_arr s)],
         s\<lparr>s_len := s_len s + length xs\<rparr>)
      else
        (h @ [view h s @ xs @ replicate grow 0],
         \<lparr>s_arr = length h, s_off = 0, s_len = s_len s + length xs,
          s_cap = s_len s + length xs + grow\<rparr>))"

text \<open>\<^verbatim>\<open>protowire.ConsumeBytes\<close> returns \<^verbatim>\<open>b[n:][:m]\<close>, or nil with an error code.\<close>

definition ConsumeBytes_hdr :: "heap \<Rightarrow> bslice \<Rightarrow> bslice option \<times> int" where
  "ConsumeBytes_hdr h b =
     (case ConsumeVarint (view h b) of (m, n) \<Rightarrow>
        if n < 0 then (None, n)
        else if uint m > int (s_len (slice_from b (nat n))) then (None, errCodeTruncated)
        else (Some (slice_to (slice_from b (nat n)) (nat (uint m))), n + uint m))"


text \<open>
  The switch of \<^verbatim>\<open>decoder.value\<close> on headers: the scalar read, the payload and the
  rest of the buffer. The payload stays nil unless the wire type is length-delimited;
  then it is \<^verbatim>\<open>vb[:len(vb):len(vb)]\<close>.
\<close>

definition consume_wire_hdr ::
  "heap \<Rightarrow> nat \<Rightarrow> bslice \<Rightarrow> failure + (64 word \<times> bslice option \<times> bslice)" where
  "consume_wire_hdr h wiretype buf =
     (if wiretype = VarintType then
        (case ConsumeVarint (view h buf) of (v, n) \<Rightarrow>
           if n \<le> 0 then Inl (Returned (Err ''bad protobuf varint value''))
           else Inr (v, None, slice_from buf (nat n)))
      else if wiretype = Fixed32Type then
        (case ConsumeFixed32 (view h buf) of (res, n) \<Rightarrow>
           if n \<le> 0 then Inl (Returned (Err ''bad protobuf 32-bit value''))
           else Inr (ucast res, None, slice_from buf (nat n)))
      else if wiretype = Fixed64Type then
        (case ConsumeFixed64 (view h buf) of (res, n) \<Rightarrow>
           if n \<le> 0 then Inl (Returned (Err ''bad protobuf 64-bit value''))
           else Inr (res, None, slice_from buf (nat n)))
      else if wiretype = BytesType then
        (case ConsumeBytes_hdr h buf of (vb, n) \<Rightarrow>
           if n \<le> 0 then Inl (Returned (Err ''bad protobuf length-delimited value''))
           else Inr (0, map_option (\<lambda>s. slice_full s (s_len s) (s_len s)) vb,
                     slice_from buf (nat n)))
      else Inl (Returned (Err ''unknown protobuf wire-type'')))"

text \<open>
  \<^verbatim>\<open>putvalue\<close> on a settable destination whose kind is \<^verbatim>\<open>Slice\<close> and whose elements
  have the kind \<^verbatim>\<open>Uint8\<close>: the wire type is checked, \<^verbatim>\<open>decoder.slice\<close> takes the case
  of \<^verbatim>\<open>uint8\<close> elements, and \<^verbatim>\<open>SetBytes\<close> stores the header it is given in the
  destination. The result is the header the destination holds.
\<close>

definition SetBytes :: "bslice option \<Rightarrow> failure + bslice option" where
  "SetBytes vb = Inr vb"

definition putvalue_hdr :: "nat \<Rightarrow> bslice option \<Rightarrow> failure + bslice option" where
  "putvalue_hdr wiretype vb =
     (if wiretype \<noteq> BytesType then Inl (Returned (Err ''bad wiretype for repeated field''))
      else SetBytes vb)"

text \<open>\<^verbatim>\<open>decoder.value\<close> on headers: the rest of the buffer and the destination.\<close>

definition decoder_value_hdr ::
  "heap \<Rightarrow> nat \<Rightarrow> bslice \<Rightarrow> failure + (bslice \<times> bslice option)" where
  "decoder_value_hdr h wiretype buf =
     bindE (consume_wire_hdr h wiretype buf) (\<lambda>(v, vb, rest).
     bindE (putvalue_hdr wiretype vb) (\<lambda>dst. Inr (rest, dst)))"

text \<open>The data of a byte slice with the given elements; a nil header has none.\<close>

definition bytes_value :: "heap \<Rightarrow> bslice option \<Rightarrow> gval" where
  "bytes_value h dst =
     VSlice (Some (map (\<lambda>b. VUint (ucast b)) (case dst of None \<Rightarrow> [] | Some s \<Rightarrow> view h s)))"


section \<open>Types and values of the test suite\<close>

text \<open>A program that declares no marshalling method and registers no generator.\<close>

definition no_methods :: package where
  "no_methods = \<lparr>MarshalBinary = (\<lambda>t. None), UnmarshalBinary = (\<lambda>t. None),
                  MarshalID = (\<lambda>t. None), generators = Map.empty\<rparr>"

definition Test1 :: rtype where
  "Test1 = Named ''Test1'' (StructOf [StructField ''A'' [] (Basic Uint32) [] False])"

definition TestNestedInner :: rtype where
  "TestNestedInner = Named ''TestNestedInner'' (StructOf
     [StructField ''A'' [] (Basic Int32) [] False,
      StructField ''B'' [] (Basic Int32) ''10'' False,
      StructField ''C'' [] (Basic Int32) ''renamed'' False])"

definition TestNestedOuter :: rtype where
  "TestNestedOuter = Named ''TestNestedOuter'' (StructOf
     [StructField ''A'' [] (Basic Int32) [] False,
      StructField ''TestNestedInner'' [] (PtrTo TestNestedInner) [] True])"

definition TestDuplicateID :: rtype where
  "TestDuplicateID = Named ''TestDuplicateID'' (StructOf
     [StructField ''A'' [] (Basic Int32) ''1'' False,
      StructField ''B'' [] (Basic Int32) ''1'' False])"

text \<open>The types of \<^verbatim>\<open>TestInterface_UnknownType\<close>: an interface, a struct whose pointer
  marshals itself to 01 02 03, fails to unmarshal and has the type tag \<^verbatim>\<open>aaaaaaaa\<close>, and
  a struct with one field of the interface type. The program's methods are a table with
  the registry as its parameter.\<close>

definition dummyInterface :: rtype where
  "dummyInterface = InterfaceOf ''dummyInterface''"

definition dummyStruct :: rtype where
  "dummyStruct = Named ''dummyStruct'' (StructOf [])"

definition dummyWrapper :: rtype where
  "dummyWrapper = Named ''dummyWrapper'' (StructOf [StructField ''D'' [] dummyInterface [] False])"

definition dummy_methods :: "(byte list \<rightharpoonup> rtype \<times> gval) \<Rightarrow> package" where
  "dummy_methods gens =
     \<lparr>MarshalBinary = (\<lambda>t. if t = PtrTo dummyStruct then Some (\<lambda>x. Inr [1, 2, 3]) else None),
      UnmarshalBinary = (\<lambda>t. if t = PtrTo dummyStruct
                              then Some (\<lambda>x data. (Some (Err ''fail to unmarshal''), x)) else None),
      MarshalID = (\<lambda>t. if t = PtrTo dummyStruct then Some (\<lambda>x. [0x61, 0x61, 0x61, 0x61, 0x61, 0x61, 0x61, 0x61]) else None),
      generators = gens\<rparr>"

text \<open>The bytes of a word, lowest first, and the word of such bytes: the fixed-width
  encodings are instances.\<close>

fun le_bytes :: "nat \<Rightarrow> 'a::len word \<Rightarrow> byte list" where
  "le_bytes 0 w = []"
| "le_bytes (Suc k) w = ucast w # le_bytes k (drop_bit 8 w)"

fun le_word :: "byte list \<Rightarrow> 'a::len word" where
  "le_word [] = 0"
| "le_word (b # bs) = ucast b OR push_bit 8 (le_word bs)"

text \<open>A buffer with two adjacent byte fields, \<^verbatim>\<open>ab\<close> and \<^verbatim>\<open>cd\<close>.\<close>

definition two_fields :: heap where
  "two_fields = [[0x0a, 0x02, 0x61, 0x62, 0x12, 0x02, 0x63, 0x64]]"







text \<open>A sequence of calls of \<^verbatim>\<open>ProtoFields\<close>, each on the cache the one before left.\<close>

fun resolve_all :: "fieldCache \<Rightarrow> rtype list \<Rightarrow> fieldCache" where
  "resolve_all cache [] = cache"
| "resolve_all cache (t # ts) = resolve_all (snd (ProtoFields cache t)) ts"

text \<open>The range of Go's \<^verbatim>\<open>int\<close>.\<close>

definition in_int :: "int \<Rightarrow> bool" where
  "in_int x = (- (2 ^ 63) \<le> x \<and> x < 2 ^ 63)"

text \<open>A cache holds, for a type, what resolving the type gives.\<close>

definition cache_ok :: "fieldCache \<Rightarrow> bool" where
  "cache_ok cache = (\<forall>t idx. cache t = Some idx \<longrightarrow> resolveFields t = Inr idx)"

section \<open>Properties of the field resolver\<close>

lemma to_int_id: "in_int x \<Longrightarrow> to_int x = x"
  by (simp add: to_int_def wrap_signed_def in_int_def)

lemma to_int_rollback: "in_int x \<Longrightarrow> to_int (to_int (x + 1) - 1) = x"
proof -
  assume a: "in_int x"
  have "to_int (to_int (x + 1) - 1) = (x + 2 ^ 63) mod 2 ^ 64 - 2 ^ 63"
    unfolding to_int_def wrap_signed_def
    by (simp add: mod_diff_left_eq) (smt (verit) mod_add_left_eq mod_diff_left_eq)
  then show ?thesis using a by (simp add: in_int_def)
qed

lemma reused_iff:
  "reused seen ps = None \<longleftrightarrow> distinct (map ID ps) \<and> set (map ID ps) \<inter> set seen = {}"
  by (induction ps arbitrary: seen) auto

lemma resolveFields_Inr:
  "resolveFields t = Inr idx \<longleftrightarrow>
     (\<exists>n. innerFieldIndexes 0 t = Inr (idx, n) \<and> distinct (map ID idx))"
proof -
  have "reused [] idx = None \<longleftrightarrow> distinct (map ID idx)"
    by (simp add: reused_iff)
  then show ?thesis
    by (cases "reused [] idx")
       (auto simp: resolveFields_def ProtoFields_def split: sum.splits option.splits)
qed

lemma ProtoFields_cached:
  "cache_ok cache \<Longrightarrow>
     fst (ProtoFields cache t) = resolveFields t \<and> cache_ok (snd (ProtoFields cache t))"
  by (auto simp: cache_ok_def ProtoFields_def resolveFields_def split: option.splits sum.splits)

lemma cache_ok_resolve_all: "cache_ok cache \<Longrightarrow> cache_ok (resolve_all cache ts)"
  by (induction ts arbitrary: cache) (simp_all add: ProtoFields_cached)

lemma cache_ok_empty: "cache_ok Map.empty"
  by (simp add: cache_ok_def)

text \<open>
  C3. A type whose flattened entry list, as \<^verbatim>\<open>innerFieldIndexes\<close> computes it,
  has two entries with the same field number makes \<^verbatim>\<open>ProtoFields\<close> panic with
  "protobuf ID reused". This happens whatever calls of \<^verbatim>\<open>ProtoFields\<close> came before,
  starting from the empty cache: the first resolution of the type fails, the failed call
  leaves the cache as it was, and so every later attempt fails the same way. The failure
  is a panic of the resolver, decided by the type alone; no value or input byte takes
  part in it.
\<close>

theorem duplicate_field_number_panics:
  assumes "innerFieldIndexes 0 t = Inr (idx, n)" and "\<not> distinct (map ID idx)"
  shows "\<exists>i. ProtoFields (resolve_all Map.empty ts) t
               = (Inl (ErrIDReused i t), resolve_all Map.empty ts)"
proof -
  let ?c = "resolve_all Map.empty ts"
  have ok: "cache_ok ?c" by (simp add: cache_ok_resolve_all cache_ok_empty)
  have "resolveFields t \<noteq> Inr idx'" for idx'
    using assms by (auto simp: resolveFields_Inr)
  then have "?c t = None" using ok by (cases "?c t") (auto simp: cache_ok_def)
  moreover obtain i where "reused [] idx = Some i"
    using assms(2) by (cases "reused [] idx") (auto simp: reused_iff)
  ultimately show ?thesis using assms(1) by (simp add: ProtoFields_def)
qed

theorem duplicate_field_number_panics_witness:
  "innerFieldIndexes 0 (PtrTo TestDuplicateID) =
     Inr ([\<lparr>ID = 1, Name = [], Index = [0],
              Field = StructField ''A'' [] (Basic Int32) ''1'' False\<rparr>,
           \<lparr>ID = 1, Name = [], Index = [1],
              Field = StructField ''B'' [] (Basic Int32) ''1'' False\<rparr>], 1)
   \<and> (\<exists>i. ProtoFields (resolve_all Map.empty [TestNestedOuter, PtrTo TestDuplicateID])
             (PtrTo TestDuplicateID)
          = (Inl (ErrIDReused i (PtrTo TestDuplicateID)),
             resolve_all Map.empty [TestNestedOuter, PtrTo TestDuplicateID]))"
proof -
  have a: "innerFieldIndexes 0 (PtrTo TestDuplicateID) =
     Inr ([\<lparr>ID = 1, Name = [], Index = [0],
              Field = StructField ''A'' [] (Basic Int32) ''1'' False\<rparr>,
           \<lparr>ID = 1, Name = [], Index = [1],
              Field = StructField ''B'' [] (Basic Int32) ''1'' False\<rparr>], 1)"
    by code_simp
  show ?thesis
    using duplicate_field_number_panics [OF a, of "[TestNestedOuter, PtrTo TestDuplicateID]"] a
    by simp
qed

text \<open>
  C4. An anonymous member at position \<open>i\<close> is flattened. When it has no number of its
  own in its tag and the running number is \<open>idn\<close>, its type is resolved from \<open>idn\<close>
  itself: the increment for the member is rolled back, so an untagged first inner field
  gets the number the member would have had. When its tag gives the number \<open>tid\<close>, the
  type is resolved from \<open>tid - 1\<close>. In both cases every inner entry gets \<open>i\<close> in front
  of its path, and the fields after the member go on from the number the inner type
  ended with. The struct of the test, \<^verbatim>\<open>{A int32; *TestNestedInner}\<close>, resolves to
  (1,[0]), (2,[1,0]), (10,[1,1]), (11,[1,2]).
\<close>

theorem embedded_member_flattened:
  "(\<forall>idn i f fs name inner id3 out id4.
      fAnonymous f \<and> ParseTag f = (0, name) \<and> in_int idn
      \<and> innerFieldIndexes idn (fType f) = Inr (inner, id3)
      \<and> innerFields id3 (Suc i) fs = Inr (out, id4)
      \<longrightarrow> innerFields idn i (f # fs)
            = Inr (map (\<lambda>p. p\<lparr>Index := i # Index p\<rparr>) inner @ out, id4))
   \<and> (\<forall>idn i f fs tid name inner id3 out id4.
      fAnonymous f \<and> ParseTag f = (tid, name) \<and> tid \<noteq> 0
      \<and> innerFieldIndexes (to_int (tid - 1)) (fType f) = Inr (inner, id3)
      \<and> innerFields id3 (Suc i) fs = Inr (out, id4)
      \<longrightarrow> innerFields idn i (f # fs)
            = Inr (map (\<lambda>p. p\<lparr>Index := i # Index p\<rparr>) inner @ out, id4))
   \<and> map (\<lambda>p. (ID p, Index p)) (projr (resolveFields TestNestedOuter))
       = [(1, [0]), (2, [1, 0]), (10, [1, 1]), (11, [1, 2])]"
proof (intro conjI allI impI)
  show "map (\<lambda>p. (ID p, Index p)) (projr (resolveFields TestNestedOuter))
       = [(1, [0]), (2, [1, 0]), (10, [1, 1]), (11, [1, 2])]"
    by code_simp
qed (simp_all add: to_int_rollback)

theorem embedded_member_flattened_witness:
  "fAnonymous (StructField ''TestNestedInner'' [] (PtrTo TestNestedInner) [] True)
   \<and> ParseTag (StructField ''TestNestedInner'' [] (PtrTo TestNestedInner) [] True) = (0, [])
   \<and> in_int 1
   \<and> map (\<lambda>p. (ID p, Index p))
        (fst (projr (innerFieldIndexes 1 (PtrTo TestNestedInner))))
      = [(2, [0]), (10, [1]), (11, [2])]
   \<and> map (\<lambda>p. (ID p, Index p))
        (fst (projr (innerFields 1 1
           [StructField ''TestNestedInner'' [] (PtrTo TestNestedInner) [] True])))
      = [(2, [1, 0]), (10, [1, 1]), (11, [1, 2])]"
proof -
  let ?f = "StructField ''TestNestedInner'' [] (PtrTo TestNestedInner) [] True"
  define inner where "inner = fst (projr (innerFieldIndexes 1 (PtrTo TestNestedInner)))"
  have i: "innerFieldIndexes 1 (fType ?f) = Inr (inner, 11)"
    unfolding inner_def by code_simp
  have m: "map (\<lambda>p. (ID p, Index p)) inner = [(2, [0]), (10, [1]), (11, [2])]"
    unfolding inner_def by code_simp
  have a: "fAnonymous ?f" by simp
  have p: "ParseTag ?f = (0, [])" by code_simp
  have r: "in_int 1" by (simp add: in_int_def)
  have o: "innerFields 11 (Suc 1) [] = Inr ([], 11)" by simp
  have g: "innerFields idn i (f # fs)
            = Inr (map (\<lambda>p. p\<lparr>Index := i # Index p\<rparr>) inn @ out, id4)"
    if "fAnonymous f \<and> ParseTag f = (0, name) \<and> in_int idn
        \<and> innerFieldIndexes idn (fType f) = Inr (inn, id3)
        \<and> innerFields id3 (Suc i) fs = Inr (out, id4)"
    for idn i f fs name inn id3 out id4
    using embedded_member_flattened that by blast
  have L: "innerFields 1 1 (?f # [])
             = Inr (map (\<lambda>p. p\<lparr>Index := 1 # Index p\<rparr>) inner @ [], 11)"
    by (rule g [where name = "[]" and ?id3.0 = 11]) (intro conjI a p r i o)
  have e: "map (\<lambda>p. (ID p, Index p)) (map (\<lambda>p. p\<lparr>Index := 1 # Index p\<rparr>) inner @ [])
             = map (\<lambda>(a, b). (a, 1 # b)) (map (\<lambda>p. (ID p, Index p)) inner)"
    by (simp add: comp_def)
  have l: "map (\<lambda>p. (ID p, Index p)) (fst (projr (innerFields 1 1 [?f])))
            = [(2, [1, 0]), (10, [1, 1]), (11, [1, 2])]"
    unfolding L sum.sel fst_conv e m by simp
  show ?thesis
    by (intro conjI a p r m [unfolded inner_def] l)
qed

section \<open>Properties of the encoder\<close>

lemma encoder_value_by_type:
  "value_by_type en key val = Some en' \<Longrightarrow> encoder_value c en key val = Inr en'"
  by (simp add: encoder_value.simps)

lemma varint_150: "varint_bytes 150 = [0x96, 0x01]"
  by code_simp

lemma varint_small: "0 \<le> n \<Longrightarrow> n < 128 \<Longrightarrow> varint_bytes n = [of_int n]"
  by (simp add: varint_bytes.simps)

text \<open>
  C2. A pointer to a struct whose single field is an exported, untagged \<^verbatim>\<open>uint32\<close>
  with the value 150 encodes to the three bytes 08 96 01, whatever the struct and the
  field are called, as long as the pointer type has no \<^verbatim>\<open>MarshalBinary\<close> of its own.
\<close>

theorem encode_uint32_150:
  assumes "MarshalBinary c
             (PtrTo (Named tn (StructOf [StructField fn [] (Basic Uint32) [] False]))) = None"
  shows "Encode c (Some (PtrTo (Named tn (StructOf [StructField fn [] (Basic Uint32) [] False])),
                         VPtr (Some (VStruct [VUint 150]))))
         = Inr (Some [0x08, 0x96, 0x01])"
proof -
  let ?f = "StructField fn [] (Basic Uint32) [] False"
  let ?T = "Named tn (StructOf [?f])"
  let ?fv = "\<lparr>vtype = Basic Uint32, vdata = VUint 150, flagAddr = True,
               flagStickyRO = False, flagEmbedRO = False\<rparr>"
  have r: "resolveFields ?T = Inr [\<lparr>ID = 1, Name = [], Index = [0], Field = ?f\<rparr>]"
    by (simp add: resolveFields_def ProtoFields_def ParseTag_def to_int_def Number_def
          wrap_signed_def)
  have t: "EncodeTag 1 0 = 8" by (simp add: EncodeTag_def)
  have "value_by_type [] 1 ?fv = Some [0x08, 0x96, 0x01]"
    by (simp add: value_by_type_def timeType_def VUintOf_def uvarint_def keyTag_def Write_def
          AppendVarint_def t varint_150 varint_small)
  then have v: "encoder_value c [] 1 ?fv = Inr [0x08, 0x96, 0x01]"
    by (rule encoder_value_by_type)
  have "encoder_message c [] (Addressable ?T (VStruct [VUint 150])) = Inr [0x08, 0x96, 0x01]"
    by (simp add: encoder_message.simps r Addressable_def IsValid_def VKind_def FieldByIndex_def
          VField_def CanSet_def flagRO_def IsExported_def v)
  then show ?thesis using assms
    by (simp add: Encode_def ValueOf_def VKind_def VElem_def Addressable_def Bytes_def)
qed

theorem encode_uint32_150_witness:
  "MarshalBinary no_methods (PtrTo Test1) = None \<and>
   Encode no_methods (Some (PtrTo Test1, VPtr (Some (VStruct [VUint 150]))))
     = Inr (Some [0x08, 0x96, 0x01])"
  using encode_uint32_150 [of no_methods "''Test1''" "''A''"]
  by (simp add: no_methods_def Test1_def)

section \<open>Properties of the wire primitives\<close>

lemma uint_byte_of_int: "0 \<le> n \<Longrightarrow> n < 256 \<Longrightarrow> uint (of_int n :: byte) = n"
  by (simp add: uint_word_of_int)

lemma varint_bytes_nonempty: "varint_bytes n \<noteq> []"
  by (subst varint_bytes.simps) simp

lemma consume_varint_bytes:
  "0 \<le> n \<Longrightarrow> i + k = 9 \<Longrightarrow> n < 2 ^ (7 * k + 1) \<Longrightarrow>
   consume_varint i (varint_bytes n @ rest) = (n, int (length (varint_bytes n)))"
proof (induction n arbitrary: i k rule: varint_bytes.induct)
  case (1 n)
  show ?case
  proof (cases "n < 128")
    case True
    then have v: "varint_bytes n = [of_int n]" by (subst varint_bytes.simps) simp
    have u: "uint (of_int n :: byte) = n" using True "1.prems"(1) by (simp add: uint_byte_of_int)
    show ?thesis
    proof (cases "i \<ge> 9")
      case True
      then have "k = 0" using "1.prems"(2) by simp
      then have "n < 2" using "1.prems"(3) by simp
      then show ?thesis using True by (simp add: v u)
    next
      case False
      then show ?thesis using True by (simp add: v u)
    qed
  next
    case False
    define y :: byte where "y = of_int (n mod 128 + 128)"
    have v: "varint_bytes n = y # varint_bytes (n div 128)"
      unfolding y_def using False by (subst varint_bytes.simps) simp
    have u: "uint y = n mod 128 + 128"
      unfolding y_def by (rule uint_byte_of_int) (simp_all add: pos_mod_sign)
    have k: "k \<noteq> 0"
    proof
      assume "k = 0"
      then have "n < 2" using "1.prems"(3) by simp
      then show False using False by simp
    qed
    then obtain k' where k': "k = Suc k'" by (cases k) auto
    have i9: "\<not> i \<ge> 9" using "1.prems"(2) k by simp
    have "n < 128 * 2 ^ (7 * k' + 1)" using "1.prems"(3) by (simp add: k' power_add)
    then have b: "n div 128 < 2 ^ (7 * k' + 1)" by simp
    have "consume_varint (Suc i) (varint_bytes (n div 128) @ rest)
            = (n div 128, int (length (varint_bytes (n div 128))))"
      by (rule "1.IH" [OF False _ _ b]) (use "1.prems" k' in simp_all)
    moreover have nn: "\<not> n mod 128 < 0" by (simp add: not_less)
    ultimately show ?thesis using i9 by (simp add: v u nn)
  qed
qed

lemma ConsumeVarint_AppendVarint:
  "ConsumeVarint (AppendVarint [] v @ rest) = (v, int (length (AppendVarint [] v)))"
proof -
  have "uint v < 2 ^ 64" using uint_bounded [of v] by simp
  then have "consume_varint 0 (varint_bytes (uint v) @ rest)
               = (uint v, int (length (varint_bytes (uint v))))"
    by (intro consume_varint_bytes [where k = 9]) simp_all
  then show ?thesis by (simp add: ConsumeVarint_def AppendVarint_def)
qed

lemma le_word_le_bytes: "le_word (le_bytes k w) = take_bit (8 * k) w"
proof (induction k arbitrary: w)
  case 0
  then show ?case by simp
next
  case (Suc k)
  show ?case
    apply (simp add: Suc)
    apply (rule bit_word_eqI)
    apply (auto simp: bit_simps)
    done
qed

lemma AppendFixed32_le: "AppendFixed32 [] v = le_bytes 4 v"
  by (simp add: AppendFixed32_def eval_nat_numeral drop_bit_drop_bit)

lemma AppendFixed64_le: "AppendFixed64 [] v = le_bytes 8 v"
  by (simp add: AppendFixed64_def eval_nat_numeral drop_bit_drop_bit)

lemma le_bytes_length [simp]: "length (le_bytes k w) = k"
  by (induction k arbitrary: w) auto

lemma ConsumeFixed32_le:
  "length b \<ge> 4 \<Longrightarrow> ConsumeFixed32 b = (le_word (take 4 b), 4)"
  apply (cases b; simp add: ConsumeFixed32_def)
  subgoal for b0 bs
  apply (cases bs; simp)
  subgoal for b1 bs
  apply (cases bs; simp)
  subgoal for b2 bs
  apply (cases bs; simp add: push_bit_or)
  done
  done
  done
  done


lemma length_ge_Suc: "Suc n \<le> length b \<Longrightarrow> \<exists>x xs. b = x # xs \<and> n \<le> length xs"
  by (cases b) auto

lemma ConsumeFixed64_le:
  "length b \<ge> 8 \<Longrightarrow> ConsumeFixed64 b = (le_word (take 8 b), 8)"
proof -
  assume "length b \<ge> 8"
  then have "Suc (Suc (Suc (Suc (Suc (Suc (Suc (Suc 0))))))) \<le> length b" by simp
  then obtain b0 b1 b2 b3 b4 b5 b6 b7 r where b: "b = b0 # b1 # b2 # b3 # b4 # b5 # b6 # b7 # r"
    by (blast dest!: length_ge_Suc)
  have l: "take 8 b = [b0, b1, b2, b3, b4, b5, b6, b7]" by (simp add: b)
  have n: "b ! 0 = b0" "b ! 1 = b1" "b ! 2 = b2" "b ! 3 = b3" "b ! 4 = b4" "b ! 5 = b5"
    "b ! 6 = b6" "b ! 7 = b7" by (simp_all add: b)
  have g: "\<not> length b < 8" by (simp add: b)
  show ?thesis
    unfolding ConsumeFixed64_def l n by (simp add: g push_bit_or)
qed

lemma ConsumeFixed32_AppendFixed32:
  "ConsumeFixed32 (AppendFixed32 [] v @ rest) = (v, 4)"
  by (simp add: ConsumeFixed32_le AppendFixed32_le le_word_le_bytes take_bit_word_eq_self)

lemma ConsumeFixed64_AppendFixed64:
  "ConsumeFixed64 (AppendFixed64 [] v @ rest) = (v, 8)"
  by (simp add: ConsumeFixed64_le AppendFixed64_le le_word_le_bytes take_bit_word_eq_self)

lemma nat_and_7: "t < 8 \<Longrightarrow> t AND 7 = (t::nat)"
proof -
  assume a: "t < 8"
  have "(7::nat) = mask 3" by (simp add: mask_eq_exp_minus_1)
  then have "t AND 7 = take_bit 3 t" by (simp add: take_bit_eq_mask)
  then show ?thesis using a by (simp add: take_bit_eq_mod)
qed

lemma int_and_7: "(x::int) AND 7 = take_bit 3 x"
proof -
  have "(7::int) = mask 3" by (simp add: mask_eq_exp_minus_1)
  then show ?thesis by (simp add: take_bit_eq_mask)
qed

lemma uint_of_nat_64: "n < 2 ^ 64 \<Longrightarrow> uint (word_of_nat n :: 64 word) = int n"
  by (simp add: uint_nat unat_of_nat)

lemma take_bit_64_tag:
  "0 \<le> num \<Longrightarrow> num < 2 ^ 31 \<Longrightarrow> take_bit 64 (push_bit 3 num) = push_bit 3 (num::int)"
  by (simp add: take_bit_int_eq_self push_bit_eq_mult)

lemma uint_EncodeTag:
  assumes "0 \<le> num" "num < 2 ^ 31" "t < 8"
  shows "uint (EncodeTag num t) = push_bit 3 num OR int t"
proof -
  have 1: "uint (word_of_int num :: 64 word) = num"
    using assms by (simp add: uint_word_of_int)
  have 2: "take_bit 64 (push_bit 3 num) = push_bit 3 num"
    using assms by (simp add: take_bit_64_tag)
  have 3: "uint (word_of_nat t :: 64 word) = int t"
    using assms by (simp add: uint_of_nat_64)
  show ?thesis
    by (simp add: EncodeTag_def nat_and_7 assms unsigned_or_eq unsigned_push_bit_eq 1 2 3)
qed

lemma DecodeTag_EncodeTag:
  assumes "1 \<le> num" "num < 2 ^ 31" "t < 8"
  shows "DecodeTag (EncodeTag num t) = (num, t)"
proof -
  let ?x = "EncodeTag num t"
  have u: "uint ?x = push_bit 3 num OR int t"
    using assms by (intro uint_EncodeTag) simp_all
  have t0: "drop_bit 3 (int t) = 0" using assms by (simp add: drop_bit_eq_div)
  have t64: "take_bit 64 (int t) = int t" using assms by (simp add: take_bit_int_eq_self)
  have n64: "take_bit 64 (push_bit 3 num) = push_bit 3 num"
    using assms by (simp add: take_bit_64_tag)
  have d: "uint (drop_bit 3 ?x) = num"
    by (simp add: unsigned_drop_bit_eq u t0 t64 n64 drop_bit_push_bit_int)
  have t3: "take_bit 3 (int t) = int t" using assms by (simp add: take_bit_int_eq_self)
  have "uint (?x AND 7) = int t"
    by (simp add: unsigned_and_eq u int_and_7 take_bit_push_bit t3)
  then have m: "unat (?x AND 7) = t" by (simp add: unat_eq_nat_uint del: uint_and)
  have "uint (drop_bit 3 ?x) \<le> uint (0x7FFFFFFF :: 64 word)" unfolding d using assms by simp
  then have "\<not> drop_bit 3 ?x > 0x7FFFFFFF" by (simp add: word_less_def word_le_def not_less)
  then show ?thesis by (simp add: DecodeTag_def d m)
qed

lemma ConsumeTag_EncodeTag:
  assumes "1 \<le> num" "num < 2 ^ 31" "t < 8"
  shows "ConsumeTag (AppendVarint [] (EncodeTag num t) @ rest)
           = (num, t, int (length (AppendVarint [] (EncodeTag num t))))"
  using assms by (simp add: ConsumeTag_def ConsumeVarint_AppendVarint DecodeTag_EncodeTag)

lemma AppendVarint_length_pos: "0 < length (AppendVarint [] v)"
  by (simp add: AppendVarint_def varint_bytes_nonempty)

lemma ConsumeBytes_bytes:
  assumes "length bs < 2 ^ 64"
  shows "ConsumeBytes (AppendVarint [] (of_nat (length bs)) @ bs @ rest)
           = (bs, int (length (AppendVarint [] (of_nat (length bs)))) + int (length bs))"
proof -
  have u: "uint (of_nat (length bs) :: 64 word) = int (length bs)"
    using assms by (simp add: uint_of_nat_64)
  show ?thesis
    by (simp add: ConsumeBytes_def ConsumeVarint_AppendVarint u)
qed

section \<open>Properties of the entry points\<close>

text \<open>
  C10. With a nil argument each entry point returns at once. \<^verbatim>\<open>Encode\<close> gives the nil
  slice and no error; \<^verbatim>\<open>Decode\<close> and \<^verbatim>\<open>DecodeWithConstructors\<close> give no error and
  leave the argument nil, whatever the buffer and the constructors are.
\<close>

theorem nil_argument_is_noop:
  "Encode c None = Inr None \<and> Decode c buf None = Inr None
   \<and> DecodeWithConstructors c buf None cons = Inr None"
  by (simp add: Encode_def Decode_def DecodeWithConstructors.simps)

section \<open>Signed integers\<close>

lemma value_by_type_signed:
  assumes "vtype val = Basic IntK \<or> vtype val = Basic Int32 \<or> vtype val = Basic Int64"
  shows "value_by_type en key val = Some (svarint (keyTag en key VarintType) (VIntOf val))"
  using assms by (auto simp: value_by_type_def Let_def)

lemma value_by_type_None_signed:
  assumes "Kind t = IntK \<or> Kind t = Int32 \<or> Kind t = Int64"
    and "t \<noteq> Basic IntK" "t \<noteq> Basic Int32" "t \<noteq> Basic Int64"
    and "t \<noteq> sfixed32type" "t \<noteq> sfixed64type"
    and "vtype val = t"
  shows "value_by_type en key val = None"
  using assms
  by (auto simp: value_by_type_def Let_def timeType_def ufixed32type_def ufixed64type_def)

lemma encoder_value_signed:
  assumes k: "VKind val = IntK \<or> VKind val = Int32 \<or> VKind val = Int64"
    and nf: "vtype val \<noteq> sfixed32type" "vtype val \<noteq> sfixed64type"
  shows "encoder_value c en key val = Inr (svarint (keyTag en key VarintType) (VIntOf val))"
proof (cases "vtype val = Basic IntK \<or> vtype val = Basic Int32 \<or> vtype val = Basic Int64")
  case True
  then show ?thesis by (simp add: encoder_value_by_type value_by_type_signed)
next
  case False
  then have "value_by_type en key val = None"
    using k nf by (intro value_by_type_None_signed [where t = "vtype val"]) (auto simp: VKind_def)
  then show ?thesis using k by (auto simp: encoder_value.simps Let_def)
qed

lemma ucast_32_64_32 [simp]: "ucast (ucast r :: 64 word) = (r :: 32 word)"
  by (simp add: ucast_up_ucast_id is_up)

lemma scast_32_64_32 [simp]: "ucast (scast r :: 64 word) = (r :: 32 word)"
proof -
  have "(ucast :: 64 word \<Rightarrow> 32 word) = scast"
    by (rule down_cast_same) (simp add: is_down)
  then show ?thesis by (simp add: scast_up_scast_id is_up)
qed

lemma AppendVarint_nonempty [simp]: "AppendVarint [] w \<noteq> []"
  by (simp add: AppendVarint_def varint_bytes_nonempty)

lemma consume_wire_varint:
  "consume_wire VarintType (AppendVarint [] w @ rest) = Inr (w, [], rest)"
  by (simp add: consume_wire_def ConsumeVarint_AppendVarint AppendVarint_length_pos)

lemma consume_wire_fixed32:
  "consume_wire Fixed32Type (AppendFixed32 [] r @ rest) = Inr (ucast r, [], rest)"
  by (simp add: consume_wire_def ConsumeFixed32_AppendFixed32) (simp add: AppendFixed32_def)

lemma consume_wire_fixed64:
  "consume_wire Fixed64Type (AppendFixed64 [] w @ rest) = Inr (w, [], rest)"
  by (simp add: consume_wire_def ConsumeFixed64_AppendFixed64) (simp add: AppendFixed64_def)

lemma consume_wire_fixed64_Suc:
  "consume_wire (Suc 0) (AppendFixed64 [] w @ rest) = Inr (w, [], rest)"
  using consume_wire_fixed64 [of w rest] by simp

lemma consume_wire_bytes:
  "length bs < 2 ^ 64 \<Longrightarrow>
   consume_wire BytesType (AppendVarint [] (of_nat (length bs)) @ bs @ rest) = Inr (0, bs, rest)"
proof -
  assume a: "length bs < 2 ^ 64"
  let ?p = "AppendVarint [] (of_nat (length bs) :: 64 word)"
  have "?p \<noteq> []" by simp
  then have "0 < length ?p" by (simp del: AppendVarint_nonempty)
  then have "0 < int (length ?p) + int (length bs)" by linarith
  then show ?thesis
    using a by (simp add: consume_wire_def ConsumeBytes_bytes nat_add_distrib not_le)
qed

lemma putvalue_signed:
  assumes "CanSet val" "VKind val = IntK \<or> VKind val = Int32 \<or> VKind val = Int64"
  shows "putvalue c de wiretype val v vb = bindE (decodeSignedInt wiretype v) (\<lambda>sv. Inr (SetInt val sv))"
  using assms by (auto simp: putvalue.simps Let_def)

text \<open>
  C5. A value of kind \<^verbatim>\<open>int\<close>, \<^verbatim>\<open>int32\<close> or \<^verbatim>\<open>int64\<close> that is not one of the fixed
  types, holding the integer \<open>i\<close>, is written as the tag of its key with the varint wire
  type and then the varint of \<open>i mod 2\<^sup>6\<^sup>4\<close>: the bits of the two's complement read
  as unsigned, with no zigzag. A settable destination of such a kind takes a varint, a
  fixed32 or a fixed64 payload. A 64-bit destination receives the varint and the fixed64
  word unchanged and the fixed32 word sign-extended from 32 bits; a 32-bit destination
  keeps the low 32 bits of what it is given, sign-extended. A length-delimited payload
  is refused with \<^verbatim>\<open>bad wiretype for sint\<close>.
\<close>

theorem signed_integers_on_the_wire:
  "(\<forall>c en key val i.
      (VKind val = IntK \<or> VKind val = Int32 \<or> VKind val = Int64)
      \<and> vtype val \<noteq> sfixed32type \<and> vtype val \<noteq> sfixed64type
      \<and> vdata val = VInt (word_of_int i)
      \<longrightarrow> encoder_value c en key val
            = Inr (en @ AppendVarint [] (EncodeTag key VarintType) @ varint_bytes (i mod 2 ^ 64)))
   \<and> (\<forall>c de val w r rest.
      CanSet val \<and> (VKind val = IntK \<or> VKind val = Int64)
      \<longrightarrow> decoder_value c de VarintType (AppendVarint [] w @ rest) val = Inr (rest, VInt w)
        \<and> decoder_value c de Fixed32Type (AppendFixed32 [] r @ rest) val
            = Inr (rest, VInt (scast r))
        \<and> decoder_value c de Fixed64Type (AppendFixed64 [] w @ rest) val = Inr (rest, VInt w))
   \<and> (\<forall>c de val w r rest.
      CanSet val \<and> VKind val = Int32
      \<longrightarrow> decoder_value c de VarintType (AppendVarint [] w @ rest) val
            = Inr (rest, VInt (scast (ucast w :: 32 word)))
        \<and> decoder_value c de Fixed32Type (AppendFixed32 [] r @ rest) val
            = Inr (rest, VInt (scast r))
        \<and> decoder_value c de Fixed64Type (AppendFixed64 [] w @ rest) val
            = Inr (rest, VInt (scast (ucast w :: 32 word))))
   \<and> (\<forall>c de val bs rest.
      CanSet val \<and> (VKind val = IntK \<or> VKind val = Int32 \<or> VKind val = Int64)
      \<and> length bs < 2 ^ 64
      \<longrightarrow> decoder_value c de BytesType (AppendVarint [] (of_nat (length bs)) @ bs @ rest) val
            = Inl (Returned (Err ''bad wiretype for sint'')))"
proof (intro conjI allI impI, goal_cases)
  case (1 c en key val i)
  then have "VIntOf val = word_of_int i" by (simp add: VIntOf_def)
  moreover have "uint (word_of_int i :: 64 word) = i mod 2 ^ 64" by (simp add: uint_word_of_int)
  ultimately show ?case using 1
    by (simp add: encoder_value_signed svarint_def uvarint_def keyTag_def Write_def AppendVarint_def)
next
  case (2 c de val w r rest)
  then show ?case
    by (elim conjE disjE) (simp_all add: decoder_value_def decoder_value_with_def consume_wire_varint
        putvalue_signed decodeSignedInt_def SetInt_def)
next
  case (3 c de val w r rest)
  show ?case using 3
    by (elim conjE disjE) (simp_all add: decoder_value_def decoder_value_with_def consume_wire_fixed32
        putvalue_signed decodeSignedInt_def SetInt_def)
next
  case (4 c de val w r rest)
  then show ?case
    by (elim conjE disjE) (simp_all add: decoder_value_def decoder_value_with_def consume_wire_fixed64 consume_wire_fixed64_Suc
        putvalue_signed decodeSignedInt_def SetInt_def)
next
  case (5 c de val w r rest)
  then show ?case
    by (elim conjE disjE) (simp_all add: decoder_value_def decoder_value_with_def consume_wire_varint
        putvalue_signed decodeSignedInt_def SetInt_def)
next
  case (6 c de val w r rest)
  show ?case using 6
    by (elim conjE disjE) (simp_all add: decoder_value_def decoder_value_with_def consume_wire_fixed32
        putvalue_signed decodeSignedInt_def SetInt_def)
next
  case (7 c de val w r rest)
  then show ?case
    by (elim conjE disjE) (simp_all add: decoder_value_def decoder_value_with_def consume_wire_fixed64 consume_wire_fixed64_Suc
        putvalue_signed decodeSignedInt_def SetInt_def)
next
  case (8 c de val bs rest)
  then show ?case
    by (elim conjE disjE) (simp_all add: decoder_value_def decoder_value_with_def consume_wire_bytes
        putvalue_signed decodeSignedInt_def)
qed

theorem signed_integers_on_the_wire_witness:
  "encoder_value no_methods [] 1 (Addressable (Basic Int64) (VInt (word_of_int (- 1))))
     = Inr [0x08, 0xff, 0xff, 0xff, 0xff, 0xff, 0xff, 0xff, 0xff, 0xff, 0x01]
   \<and> CanSet (Addressable (Basic Int64) (VInt 0))
   \<and> decoder_value no_methods \<lparr>nm = Map.empty\<rparr> Fixed32Type (AppendFixed32 [] (- 1) @ [])
        (Addressable (Basic Int64) (VInt 0)) = Inr ([], VInt (- 1))
   \<and> decoder_value no_methods \<lparr>nm = Map.empty\<rparr> VarintType (AppendVarint [] 0xFFFFFFFF @ [])
        (Addressable (Basic Int32) (VInt 0)) = Inr ([], VInt (- 1))
   \<and> decoder_value no_methods \<lparr>nm = Map.empty\<rparr> BytesType
        (AppendVarint [] (of_nat (length [0x01 :: byte])) @ [0x01] @ [])
        (Addressable (Basic Int64) (VInt 0)) = Inl (Returned (Err ''bad wiretype for sint''))"
proof -
  let ?v = "Addressable (Basic Int64) (VInt (word_of_int (- 1)))"
  let ?d = "Addressable (Basic Int64) (VInt 0)"
  let ?d32 = "Addressable (Basic Int32) (VInt 0)"
  note T1 = signed_integers_on_the_wire [THEN conjunct1, rule_format]
  note T2 = signed_integers_on_the_wire [THEN conjunct2, THEN conjunct1, rule_format]
  note T3 = signed_integers_on_the_wire [THEN conjunct2, THEN conjunct2, THEN conjunct1, rule_format]
  note T4 = signed_integers_on_the_wire [THEN conjunct2, THEN conjunct2, THEN conjunct2, rule_format]
  have k: "VKind ?v = Int64" "vtype ?v \<noteq> sfixed32type" "vtype ?v \<noteq> sfixed64type"
    "vdata ?v = VInt (word_of_int (- 1))"
    by (simp_all add: Addressable_def VKind_def sfixed32type_def sfixed64type_def)
  have s: "CanSet ?d" "VKind ?d = Int64" "CanSet ?d32" "VKind ?d32 = Int32"
    by (simp_all add: Addressable_def VKind_def CanSet_def flagRO_def)
  have b: "AppendVarint [] (EncodeTag 1 VarintType) @ varint_bytes ((- 1) mod 2 ^ 64)
           = [0x08, 0xff, 0xff, 0xff, 0xff, 0xff, 0xff, 0xff, 0xff, 0xff, 0x01]"
    by code_simp
  have 1: "encoder_value no_methods [] 1 ?v
           = Inr ([] @ AppendVarint [] (EncodeTag 1 VarintType) @ varint_bytes ((- 1) mod 2 ^ 64))"
    by (rule T1) (use k in blast)
  have 2: "decoder_value no_methods \<lparr>nm = Map.empty\<rparr> Fixed32Type (AppendFixed32 [] (- 1) @ []) ?d
           = Inr ([], VInt (scast (- 1 :: 32 word)))"
    using T2 [of ?d] s by blast
  have 3: "decoder_value no_methods \<lparr>nm = Map.empty\<rparr> VarintType (AppendVarint [] 0xFFFFFFFF @ []) ?d32
           = Inr ([], VInt (scast (ucast (0xFFFFFFFF :: 64 word) :: 32 word)))"
    using T3 [of ?d32] s by blast
  have 4: "decoder_value no_methods \<lparr>nm = Map.empty\<rparr> BytesType
        (AppendVarint [] (of_nat (length [0x01 :: byte])) @ [0x01] @ []) ?d
         = Inl (Returned (Err ''bad wiretype for sint''))"
  proof -
    have "length [0x01 :: byte] < 2 ^ 64" by simp
    then show ?thesis using s by (intro T4) simp
  qed
  have c: "scast (- 1 :: 32 word) = (- 1 :: 64 word)" by simp
  have c2: "scast (ucast (0xFFFFFFFF :: 64 word) :: 32 word) = (- 1 :: 64 word)" by simp
  show ?thesis using 1 2 3 4 s(1) unfolding b c c2 by simp
qed

section \<open>Properties of the decode loop\<close>

lemma ConsumeTag_nil: "ConsumeTag [] = (0, 0, - 1)"
  by (simp add: ConsumeTag_def ConsumeVarint_def)

lemma CanSet_ZeroValue [simp]: "\<not> CanSet ZeroValue"
  by (simp add: CanSet_def ZeroValue_def)

lemma putvalue_not_settable: "\<not> CanSet val \<Longrightarrow> putvalue c de wiretype val v vb = Inr (vdata val)"
  by (simp add: putvalue.simps)

lemma advance_step:
  "fieldi < length fs \<Longrightarrow> ID (fs ! fieldi) < fieldnum \<Longrightarrow>
   advance fs fieldi fieldnum = advance fs (Suc fieldi) fieldnum"
  by (subst advance.simps) simp

lemma advance_done:
  "\<not> (fieldi < length fs \<and> ID (fs ! fieldi) < fieldnum) \<Longrightarrow> advance fs fieldi fieldnum = fieldi"
  by (subst advance.simps) auto

lemma advance_mono: "fieldi \<le> advance fs fieldi fieldnum"
proof (induction fs fieldi fieldnum rule: advance.induct)
  case (1 fs fieldi fieldnum)
  show ?case
  proof (cases "fieldi < length fs \<and> ID (fs ! fieldi) < fieldnum")
    case True
    then show ?thesis using "1.IH" by (simp add: advance_step)
  next
    case False
    then show ?thesis by (simp add: advance_done)
  qed
qed

lemma advance_stop:
  "advance fs fieldi fieldnum < length fs \<Longrightarrow> \<not> ID (fs ! advance fs fieldi fieldnum) < fieldnum"
proof (induction fs fieldi fieldnum rule: advance.induct)
  case (1 fs fieldi fieldnum)
  show ?case
  proof (cases "fieldi < length fs \<and> ID (fs ! fieldi) < fieldnum")
    case True
    then show ?thesis using "1.IH" "1.prems" by (simp add: advance_step)
  next
    case False
    then show ?thesis using "1.prems" by (auto simp: advance_done)
  qed
qed

lemma advance_advance:
  "a \<le> b \<Longrightarrow> advance fs (advance fs i a) b = advance fs i b"
proof (induction fs i a rule: advance.induct)
  case (1 fs fieldi fieldnum)
  show ?case
  proof (cases "fieldi < length fs \<and> ID (fs ! fieldi) < fieldnum")
    case True
    then have a: "advance fs fieldi fieldnum = advance fs (Suc fieldi) fieldnum"
      by (simp add: advance_step)
    have b: "advance fs fieldi b = advance fs (Suc fieldi) b"
      using True "1.prems" by (simp add: advance_step)
    show ?thesis using "1.IH" [OF True "1.prems"] a b by simp
  next
    case False
    then have "advance fs fieldi fieldnum = fieldi" by (simp add: advance_done)
    then show ?thesis by simp
  qed
qed

lemma message_loop_skip:
  assumes "ConsumeTag buf = (num, wt, n)" "0 < n"
    and "consume_wire wt (drop (nat n) buf) = Inr (v, vb, rem)"
    and "\<not> (advance fs fieldi num < length fs \<and> ID (fs ! advance fs fieldi num) = num)"
  shows "message_loop c de fs buf fieldi sval
           = message_loop c de fs rem (advance fs fieldi num) sval"
proof -
  have "buf \<noteq> []" using assms(1,2) by (auto simp: ConsumeTag_nil)
  then show ?thesis
    using assms
    by (subst message_loop.simps)
       (auto simp: Let_def decoder_value_with_def putvalue_not_settable)
qed

lemma sorted_ID_nth:
  "sorted_wrt (<) (map ID (fs :: ProtoField list)) \<Longrightarrow> a < b \<Longrightarrow> b < length fs
   \<Longrightarrow> ID (fs ! a) < ID (fs ! b)"
  by (auto simp: sorted_wrt_iff_nth_less dest!: spec [where x = a])

section \<open>Interface fields\<close>

lemma resolveFields_dummyWrapper:
  "resolveFields dummyWrapper
     = Inr [\<lparr>ID = 1, Name = [], Index = [0], Field = StructField ''D'' [] dummyInterface [] False\<rparr>]"
  by (simp add: dummyWrapper_def resolveFields_def ProtoFields_def ParseTag_def to_int_def
        Number_def wrap_signed_def)

lemma dummyWrapper_simps:
  "Kind dummyWrapper = Struct"
  "struct_fields dummyWrapper = [StructField ''D'' [] dummyInterface [] False]"
  by (simp_all add: dummyWrapper_def)

lemma dummyInterface_simps:
  "Kind dummyInterface = Interface" "dummyInterface \<noteq> timeType"
  by (simp_all add: dummyInterface_def timeType_def)

lemma varint_11: "AppendVarint [] 11 = [0x0b]" by code_simp

lemma tag_1_bytes: "AppendVarint [] (EncodeTag 1 BytesType) = [0x0a]" by code_simp

lemma ConsumeTag_1_bytes: "ConsumeTag (0x0a # rest) = (1, BytesType, 1)"
proof -
  have "ConsumeTag (AppendVarint [] (EncodeTag 1 BytesType) @ rest) = (1, BytesType, 1)"
    using ConsumeTag_EncodeTag [of 1 BytesType rest] by (simp add: tag_1_bytes)
  then show ?thesis by (simp add: tag_1_bytes)
qed

text \<open>
  C8. Take a \<^verbatim>\<open>dummyWrapper\<close> whose interface field holds a value that marshals itself
  to a payload of 3 bytes and has a type tag of 8 bytes for which a generator is
  registered. \<^verbatim>\<open>Encode\<close> gives the key 0a, the length 0b (11), the tag and then the
  payload. Decoding these bytes into a \<^verbatim>\<open>dummyWrapper\<close> whose interface field is nil,
  with no generator for the tag and no constructors, fails: the panic
  \<^verbatim>\<open>no constructor for interface\<close> is recovered and returned as the error.
\<close>

theorem interface_field_with_type_tag:
  assumes "MarshalBinary c (PtrTo dummyWrapper) = None"
    and "MarshalBinary c dt = Some enc" "enc x = Inr payload" "length payload = 3"
    and "MarshalID c dt = Some im" "im x = tag" "length tag = 8"
    and "generators c tag = Some g"
    and "UnmarshalBinary c' (PtrTo dummyWrapper) = None" "generators c' tag = None"
  shows "Encode c (Some (PtrTo dummyWrapper, VPtr (Some (VStruct [VIface (Some (dt, x))]))))
           = Inr (Some ([0x0a, 0x0b] @ tag @ payload))
         \<and> Decode c' ([0x0a, 0x0b] @ tag @ payload)
             (Some (PtrTo dummyWrapper, VPtr (Some (VStruct [VIface None]))))
           = Inl (ErrNoConstructor dummyInterface)"
proof
  let ?f = "\<lparr>vtype = dummyInterface, vdata = VIface (Some (dt, x)), flagAddr = True,
              flagStickyRO = False, flagEmbedRO = False\<rparr>"
  have vt: "value_by_type [] 1 ?f = None"
    by (simp add: value_by_type_def dummyInterface_def timeType_def sfixed32type_def
          sfixed64type_def ufixed32type_def ufixed64type_def)
  have k: "VKind ?f = Interface" by (simp add: VKind_def dummyInterface_def)
  have nil: "\<not> IsNil ?f" by (simp add: IsNil_def)
  have e: "VElem ?f = \<lparr>vtype = dt, vdata = x, flagAddr = False,
                        flagStickyRO = False, flagEmbedRO = False\<rparr>"
    by (simp add: VElem_def k flagRO_def)
  have sz: "(of_nat (length payload + 8) :: 64 word) = 11" using assms(4) by simp
  have v: "encoder_value c [] 1 ?f = Inr ([0x0a, 0x0b] @ tag @ payload)"
    using assms(2-8)
    by (subst encoder_value.simps)
       (simp add: vt k nil e sz Let_def keyTag_def uvarint_def Write_def tag_1_bytes varint_11
          del: of_nat_add)
  have "encoder_message c [] (Addressable dummyWrapper (VStruct [VIface (Some (dt, x))]))
          = Inr ([0x0a, 0x0b] @ tag @ payload)"
    using v
    by (simp add: encoder_message.simps resolveFields_dummyWrapper Addressable_def IsValid_def
          VKind_def FieldByIndex_def VField_def CanSet_def flagRO_def IsExported_def
          dummyWrapper_simps)
  then show "Encode c (Some (PtrTo dummyWrapper, VPtr (Some (VStruct [VIface (Some (dt, x))]))))
           = Inr (Some ([0x0a, 0x0b] @ tag @ payload))"
    using assms(1)
    by (simp add: Encode_def ValueOf_def VKind_def VElem_def Addressable_def Bytes_def)
next
  let ?de = "\<lparr>nm = Map.empty\<rparr>"
  let ?s = "Addressable dummyWrapper (VStruct [VIface None])"
  let ?f = "\<lparr>vtype = dummyInterface, vdata = VIface None, flagAddr = True,
              flagStickyRO = False, flagEmbedRO = False\<rparr>"
  let ?fs = "[\<lparr>ID = 1, Name = [], Index = [0], Field = StructField ''D'' [] dummyInterface [] False\<rparr>]"
  have l: "length (tag @ payload) = 11" using assms by simp
  have cw: "consume_wire BytesType ([0x0b] @ tag @ payload) = Inr (0, tag @ payload, [])"
  proof -
    have "consume_wire BytesType (AppendVarint [] (of_nat (length (tag @ payload))) @ (tag @ payload) @ [])
            = Inr (0, tag @ payload, [])"
      by (rule consume_wire_bytes) (simp only: l, simp)
    then show ?thesis unfolding l by (simp add: varint_11)
  qed
  have k: "VKind ?f = Interface" "Kind dummyInterface = Interface"
    by (simp_all add: VKind_def dummyInterface_def)
  have nil: "IsNil ?f" "CanSet ?f" by (simp_all add: IsNil_def CanSet_def flagRO_def)
  have p: "putvalue c' ?de BytesType ?f 0 (tag @ payload)
             = Inl (Panicked (ErrNoConstructor dummyInterface))"
    using assms(4,7,10)
    by (subst putvalue.simps) (simp add: k nil Let_def instantiate_def)
  have dv: "decoder_value_with (putvalue c' ?de) BytesType ([0x0b] @ tag @ payload) ?f
             = Inl (Panicked (ErrNoConstructor dummyInterface))"
    using cw p by (simp add: decoder_value_with_def)
  have rs: "reset_fields ?s = VStruct [VIface None]"
    by (simp add: reset_fields_def Addressable_def dummyWrapper_simps VField_def VKind_def
          dummyInterface_simps)
  have a: "advance ?fs 0 1 = 0" by (simp add: advance_done)
  have ap: "alloc_path ?s ZeroValue [] [0] = Inr (VStruct [VIface None], ?f)"
    by (simp add: FieldByIndex_def VField_def Addressable_def dummyWrapper_simps VKind_def
          dummyInterface_simps IsExported_def)
  have ml: "message_loop c' ?de ?fs ([0x0a, 0x0b] @ tag @ payload) 0 ?s
             = Inl (Panicked (ErrNoConstructor dummyInterface))"
    using dv
    by (subst message_loop.simps)
       (simp add: ConsumeTag_1_bytes a ap Let_def del: alloc_path.simps)
  have "decoder_message c' ?de ([0x0a, 0x0b] @ tag @ payload) ?s
             = Inl (Panicked (ErrNoConstructor dummyInterface))"
    using ml rs
    by (simp add: decoder_message.simps resolveFields_dummyWrapper Addressable_def VKind_def
          dummyWrapper_simps)
  then show "Decode c' ([0x0a, 0x0b] @ tag @ payload)
             (Some (PtrTo dummyWrapper, VPtr (Some (VStruct [VIface None]))))
           = Inl (ErrNoConstructor dummyInterface)"
    using assms(9)
    by (simp add: Decode_def DecodeWithConstructors.simps ValueOf_def VKind_def VElem_def
          Addressable_def recovered_def)
qed

theorem interface_field_with_type_tag_witness:
  "MarshalBinary (dummy_methods [[0x61, 0x61, 0x61, 0x61, 0x61, 0x61, 0x61, 0x61]
         \<mapsto> (PtrTo dummyStruct, VPtr (Some (VStruct [])))]) (PtrTo dummyStruct) \<noteq> None
   \<and> generators (dummy_methods Map.empty) = Map.empty
   \<and> Encode (dummy_methods [[0x61, 0x61, 0x61, 0x61, 0x61, 0x61, 0x61, 0x61]
         \<mapsto> (PtrTo dummyStruct, VPtr (Some (VStruct [])))])
        (Some (PtrTo dummyWrapper,
               VPtr (Some (VStruct [VIface (Some (PtrTo dummyStruct, VPtr (Some (VStruct []))))]))))
      = Inr (Some [0x0a, 0x0b, 0x61, 0x61, 0x61, 0x61, 0x61, 0x61, 0x61, 0x61, 1, 2, 3])
   \<and> Decode (dummy_methods Map.empty)
        [0x0a, 0x0b, 0x61, 0x61, 0x61, 0x61, 0x61, 0x61, 0x61, 0x61, 1, 2, 3]
        (Some (PtrTo dummyWrapper, VPtr (Some (VStruct [VIface None]))))
      = Inl (ErrNoConstructor dummyInterface)"
proof -
  let ?g = "(PtrTo dummyStruct, VPtr (Some (VStruct [])))"
  let ?c = "dummy_methods [[0x61, 0x61, 0x61, 0x61, 0x61, 0x61, 0x61, 0x61]
         \<mapsto> ?g]"
  have n: "PtrTo dummyWrapper \<noteq> PtrTo dummyStruct"
    by (simp add: dummyWrapper_def dummyStruct_def)
  show ?thesis
    using interface_field_with_type_tag [of ?c "PtrTo dummyStruct" "\<lambda>x. Inr [1, 2, 3]"
        "VPtr (Some (VStruct []))" "[1, 2, 3]" "\<lambda>x. [0x61, 0x61, 0x61, 0x61, 0x61, 0x61, 0x61, 0x61]"
        "[0x61, 0x61, 0x61, 0x61, 0x61, 0x61, 0x61, 0x61]" ?g
        "dummy_methods Map.empty"] n
    by (simp add: dummy_methods_def)
qed

section \<open>Records in the decode loop\<close>

lemma consume_varint_append:
  "consume_varint i b = (v, n) \<Longrightarrow> 0 \<le> n \<Longrightarrow> consume_varint i (b @ X) = (v, n)"
proof (induction i b arbitrary: v n rule: consume_varint.induct)
  case (1 i)
  then show ?case by simp
next
  case (2 i y b)
  show ?case
  proof (cases "i \<ge> 9 \<or> uint y < 128")
    case True
    then show ?thesis using "2.prems" by (auto split: if_splits)
  next
    case False
    obtain v' n' where c: "consume_varint (Suc i) b = (v', n')"
      by (cases "consume_varint (Suc i) b")
    have n': "0 \<le> n'" using "2.prems" False c by (auto split: if_splits)
    have "consume_varint (Suc i) (b @ X) = (v', n')"
      using False c n' by (intro "2.IH") auto
    then show ?thesis using "2.prems" False c by (auto split: if_splits)
  qed
qed

lemma ConsumeVarint_append:
  "ConsumeVarint b = (v, n) \<Longrightarrow> 0 \<le> n \<Longrightarrow> ConsumeVarint (b @ X) = (v, n)"
proof -
  assume a: "ConsumeVarint b = (v, n)" "0 \<le> n"
  obtain x where c: "consume_varint 0 b = (x, n)" and v: "v = of_int x"
    using a by (auto simp: ConsumeVarint_def split: prod.splits)
  have "consume_varint 0 (b @ X) = (x, n)" using c a(2) by (rule consume_varint_append)
  then show ?thesis by (simp add: ConsumeVarint_def v)
qed

lemma ConsumeTag_append:
  "ConsumeTag b = (num, wt, n) \<Longrightarrow> 0 < n \<Longrightarrow> ConsumeTag (b @ X) = (num, wt, n)"
proof -
  assume a: "ConsumeTag b = (num, wt, n)" "0 < n"
  obtain v m where c: "ConsumeVarint b = (v, m)" by (cases "ConsumeVarint b")
  have "0 \<le> m" using a c by (auto simp: ConsumeTag_def split: if_splits prod.splits)
  then have "ConsumeVarint (b @ X) = (v, m)" using c by (intro ConsumeVarint_append)
  then show ?thesis using a c by (simp add: ConsumeTag_def)
qed

lemma ConsumeFixed32_append:
  "ConsumeFixed32 b = (r, n) \<Longrightarrow> 0 < n \<Longrightarrow> ConsumeFixed32 (b @ X) = (r, n)"
  by (auto simp: ConsumeFixed32_def nth_append split: if_splits)

lemma ConsumeFixed64_append:
  "ConsumeFixed64 b = (r, n) \<Longrightarrow> 0 < n \<Longrightarrow> ConsumeFixed64 (b @ X) = (r, n)"
  by (auto simp: ConsumeFixed64_def nth_append split: if_splits)

lemma ConsumeBytes_append:
  assumes "ConsumeBytes b = (vb, n)" "0 < n"
  shows "ConsumeBytes (b @ X) = (vb, n)"
proof -
  obtain m k where c: "ConsumeVarint b = (m, k)" by (cases "ConsumeVarint b")
  have k: "0 \<le> k" and l: "uint m \<le> int (length (drop (nat k) b))"
    using assms c by (auto simp: ConsumeBytes_def split: if_splits)
  have kl: "nat k \<le> length b" using ConsumeVarint_length [OF c] k by auto
  have c': "ConsumeVarint (b @ X) = (m, k)" using c k by (intro ConsumeVarint_append)
  have "nat (uint m) \<le> length b - nat k" using l unfolding length_drop by linarith
  then have "take (nat (uint m)) (drop (nat k) b @ X) = take (nat (uint m)) (drop (nat k) b)"
    by simp
  then show ?thesis using assms c c' k l kl by (simp add: ConsumeBytes_def)
qed

lemma consume_wire_append:
  assumes "consume_wire wt b = Inr (v, vb, rem)"
  shows "consume_wire wt (b @ X) = Inr (v, vb, rem @ X)"
proof -
  consider "wt = VarintType" | "wt = Fixed32Type" | "wt = Fixed64Type" | "wt = BytesType"
    using assms by (auto simp: consume_wire_def split: if_splits)
  then show ?thesis
  proof cases
    case 1
    obtain w n where c: "ConsumeVarint b = (w, n)" by (cases "ConsumeVarint b")
    have n: "0 < n" using assms 1 c by (auto simp: consume_wire_def split: if_splits)
    have "nat n \<le> length b" using ConsumeVarint_length [OF c] n by auto
    moreover have "ConsumeVarint (b @ X) = (w, n)" using c n by (intro ConsumeVarint_append) simp_all
    ultimately show ?thesis using assms 1 c n by (simp add: consume_wire_def)
  next
    case 2
    obtain w n where c: "ConsumeFixed32 b = (w, n)" by (cases "ConsumeFixed32 b")
    have n: "0 < n" using assms 2 c by (auto simp: consume_wire_def split: if_splits)
    have "nat n \<le> length b" using c n by (auto simp: ConsumeFixed32_def split: if_splits)
    moreover have "ConsumeFixed32 (b @ X) = (w, n)" using c n by (intro ConsumeFixed32_append)
    ultimately show ?thesis using assms 2 c n by (simp add: consume_wire_def)
  next
    case 3
    obtain w n where c: "ConsumeFixed64 b = (w, n)" by (cases "ConsumeFixed64 b")
    have n: "0 < n" using assms 3 c by (auto simp: consume_wire_def split: if_splits)
    have "nat n \<le> length b" using c n by (auto simp: ConsumeFixed64_def split: if_splits)
    moreover have "ConsumeFixed64 (b @ X) = (w, n)" using c n by (intro ConsumeFixed64_append)
    ultimately show ?thesis using assms 3 c n by (simp add: consume_wire_def)
  next
    case 4
    obtain w n where c: "ConsumeBytes b = (w, n)" by (cases "ConsumeBytes b")
    have n: "0 < n" using assms 4 c by (auto simp: consume_wire_def split: if_splits)
    have "nat n \<le> length b" using ConsumeBytes_length [OF c n] n by auto
    moreover have "ConsumeBytes (b @ X) = (w, n)" using c n by (intro ConsumeBytes_append)
    ultimately show ?thesis using assms 4 c n by (simp add: consume_wire_def)
  qed
qed

lemma wf_record_append:
  assumes "wf_record r"
  shows "\<exists>wt n v vb. 0 < n \<and> (\<forall>X. ConsumeTag (r @ X) = (record_num r, wt, n)
           \<and> consume_wire wt (drop (nat n) (r @ X)) = Inr (v, vb, X))"
proof -
  obtain num wt n where t: "ConsumeTag r = (num, wt, n)" by (cases "ConsumeTag r")
  have n: "0 < n" using assms t by (simp add: wf_record_def)
  obtain v vb where w: "consume_wire wt (drop (nat n) r) = Inr (v, vb, [])"
    using assms t by (auto simp: wf_record_def split: sum.splits)
  have nl: "nat n \<le> length r"
    using t n by (auto simp: ConsumeTag_def split: prod.splits if_splits dest!: ConsumeVarint_length)
  have "ConsumeTag (r @ X) = (record_num r, wt, n)
        \<and> consume_wire wt (drop (nat n) (r @ X)) = Inr (v, vb, X)" for X
    using ConsumeTag_append [OF t n, of X] consume_wire_append [OF w, of X] nl t
    by (simp add: record_num_def)
  then show ?thesis using n by blast
qed

lemma message_loop_record:
  assumes "ConsumeTag buf = (num, wt, n)" "0 < n"
    and "consume_wire wt (drop (nat n) buf) = Inr (v, vb, rem)"
  shows "message_loop c de fs buf i sval =
     bindE (if advance fs i num < length fs \<and> ID (fs ! advance fs i num) = num
            then alloc_path sval ZeroValue [] (Index (fs ! advance fs i num))
            else Inr (vdata sval, ZeroValue)) (\<lambda>(s, field).
       (case bindE (putvalue c de wt field v vb) (\<lambda>x. Inr (rem, x)) of
          Inl (Returned err) \<Rightarrow>
            if advance fs i num < length fs then
              Inl (Returned (ErrDecodingField (Field (fs ! advance fs i num)) err))
            else Inl (Returned err)
        | Inl (Panicked e) \<Rightarrow> Inl (Panicked e)
        | Inr (rem', x) \<Rightarrow>
            message_loop c de fs rem' (advance fs i num)
              (sval\<lparr>vdata := (if advance fs i num < length fs
                                    \<and> ID (fs ! advance fs i num) = num
                                 then put_index True s (Index (fs ! advance fs i num)) x
                                 else s)\<rparr>)))"
proof -
  have ne: "buf \<noteq> []" using assms(1,2) by (auto simp: ConsumeTag_nil)
  show ?thesis
    using ne assms(2)
    by (subst message_loop.simps)
       (simp add: Let_def decoder_value_with_def assms(1,3) del: alloc_path.simps)
qed

lemma message_loop_cong_rest:
  assumes "ConsumeTag buf1 = (num, wt, n1)" "0 < n1"
    and "consume_wire wt (drop (nat n1) buf1) = Inr (v, vb, rem1)"
    and "ConsumeTag buf2 = (num, wt, n2)" "0 < n2"
    and "consume_wire wt (drop (nat n2) buf2) = Inr (v, vb, rem2)"
    and "advance fs i1 num = advance fs i2 num"
    and "\<And>s. message_loop c de fs rem1 (advance fs i1 num) s
             = message_loop c de fs rem2 (advance fs i1 num) s"
  shows "message_loop c de fs buf1 i1 sval = message_loop c de fs buf2 i2 sval"
proof -
  have "(case bindE (putvalue c de wt field v vb) (\<lambda>x. Inr (rem1, x)) of
           Inl (Returned err) \<Rightarrow> A err
         | Inl (Panicked e) \<Rightarrow> B e
         | Inr (rem', x) \<Rightarrow> message_loop c de fs rem' (advance fs i1 num) (S x))
        = (case bindE (putvalue c de wt field v vb) (\<lambda>x. Inr (rem2, x)) of
             Inl (Returned err) \<Rightarrow> A err
           | Inl (Panicked e) \<Rightarrow> B e
           | Inr (rem', x) \<Rightarrow> message_loop c de fs rem' (advance fs i1 num) (S x))"
    for field A B S
    by (cases "putvalue c de wt field v vb") (simp_all add: assms(8))
  then show ?thesis
    unfolding message_loop_record [OF assms(1,2,3)] message_loop_record [OF assms(4,5,6)]
      assms(7) [symmetric]
    by simp
qed

lemma past_entry:
  assumes "sorted_wrt (<) (map ID fs)" "j < length fs" "j < k"
  shows "advance fs k (ID (fs ! j)) = k"
    and "\<not> (k < length fs \<and> ID (fs ! k) = ID (fs ! j))"
proof -
  have g: "ID (fs ! j) < ID (fs ! k)" if "k < length fs"
    using assms that by (intro sorted_ID_nth)
  then show "\<not> (k < length fs \<and> ID (fs ! k) = ID (fs ! j))" by auto
  show "advance fs k (ID (fs ! j)) = k"
    using g by (intro advance_done) auto
qed

lemma advance_past:
  assumes "sorted_wrt (<) (map ID fs)" "j < length fs" "ID (fs ! j) < num"
  shows "j < advance fs i num"
proof (rule ccontr)
  let ?k = "advance fs i num"
  assume "\<not> j < ?k"
  then have kj: "?k \<le> j" by simp
  then have "?k < length fs" using assms(2) by simp
  then have "\<not> ID (fs ! ?k) < num" by (rule advance_stop)
  moreover have "ID (fs ! ?k) \<le> ID (fs ! j)"
  proof (cases "?k = j")
    case True
    then show ?thesis by simp
  next
    case False
    then have "?k < j" using kj by simp
    then have "ID (fs ! ?k) < ID (fs ! j)" using assms(1,2) by (intro sorted_ID_nth)
    then show ?thesis by simp
  qed
  ultimately show False using assms(3) by simp
qed

lemma later_smaller_record_dropped:
  assumes "sorted_wrt (<) (map ID fs)" "j < length fs" "ID (fs ! j) = record_num r2"
    and "wf_record r2"
  shows "list_all wf_record mids \<Longrightarrow> j < k \<Longrightarrow>
         message_loop c de fs (concat mids @ r2 @ rest) k sval
           = message_loop c de fs (concat mids @ rest) k sval"
proof (induction mids arbitrary: k sval)
  case Nil
  from wf_record_append [OF assms(4)] obtain wt n v vb where n: "0 < n"
    and p: "\<And>X. ConsumeTag (r2 @ X) = (record_num r2, wt, n)
               \<and> consume_wire wt (drop (nat n) (r2 @ X)) = Inr (v, vb, X)"
    by blast
  have t: "ConsumeTag (r2 @ rest) = (record_num r2, wt, n)"
    and w: "consume_wire wt (drop (nat n) (r2 @ rest)) = Inr (v, vb, rest)"
    using p [of rest] by blast+
  have a: "advance fs k (record_num r2) = k"
    by (rule past_entry(1) [OF assms(1,2) Nil.prems(2), unfolded assms(3)])
  have b: "\<not> (k < length fs \<and> ID (fs ! k) = record_num r2)"
    by (rule past_entry(2) [OF assms(1,2) Nil.prems(2), unfolded assms(3)])
  have b': "\<not> (advance fs k (record_num r2) < length fs
                 \<and> ID (fs ! advance fs k (record_num r2)) = record_num r2)"
    unfolding a by (rule b)
  have "message_loop c de fs (r2 @ rest) k sval
          = message_loop c de fs rest (advance fs k (record_num r2)) sval"
    by (rule message_loop_skip [OF t n w b'])
  then show ?case unfolding a by simp
next
  case (Cons m ms)
  from Cons.prems have wm: "wf_record m" and wms: "list_all wf_record ms" by simp_all
  from wf_record_append [OF wm] obtain wt n v vb where n: "0 < n"
    and p: "\<And>X. ConsumeTag (m @ X) = (record_num m, wt, n)
               \<and> consume_wire wt (drop (nat n) (m @ X)) = Inr (v, vb, X)"
    by blast
  have t1: "ConsumeTag (m @ concat ms @ r2 @ rest) = (record_num m, wt, n)"
    and w1: "consume_wire wt (drop (nat n) (m @ concat ms @ r2 @ rest))
               = Inr (v, vb, concat ms @ r2 @ rest)"
    using p [of "concat ms @ r2 @ rest"] by blast+
  have t2: "ConsumeTag (m @ concat ms @ rest) = (record_num m, wt, n)"
    and w2: "consume_wire wt (drop (nat n) (m @ concat ms @ rest)) = Inr (v, vb, concat ms @ rest)"
    using p [of "concat ms @ rest"] by blast+
  have k': "j < advance fs k (record_num m)"
    using Cons.prems(2) advance_mono [of k fs "record_num m"] by simp
  have "message_loop c de fs (m @ concat ms @ r2 @ rest) k sval
          = message_loop c de fs (m @ concat ms @ rest) k sval"
    by (rule message_loop_cong_rest [OF t1 n w1 t2 n w2 refl Cons.IH [OF wms k']])
  then show ?case by simp
qed

lemma message_loop_cursor:
  assumes "ConsumeTag buf = (b, wt, n)" "0 < n \<longrightarrow> advance fs i1 b = advance fs i2 b"
  shows "message_loop c de fs buf i1 sval = message_loop c de fs buf i2 sval"
proof (cases "0 < n")
  case True
  then have e: "advance fs i1 b = advance fs i2 b" using assms(2) by simp
  show ?thesis
    unfolding message_loop.simps [of c de fs buf i1] message_loop.simps [of c de fs buf i2]
    by (simp add: assms(1) e Let_def del: alloc_path.simps)
next
  case False
  then show ?thesis
    unfolding message_loop.simps [of c de fs buf i1] message_loop.simps [of c de fs buf i2]
    by (simp add: assms(1))
qed

lemma Decode_loop_eq:
  assumes "UnmarshalBinary c (PtrTo T) = None"
    and "\<And>fs sval. resolveFields T = Inr fs \<Longrightarrow>
           message_loop c \<lparr>nm = cons\<rparr> fs buf1 0 sval = message_loop c \<lparr>nm = cons\<rparr> fs buf2 0 sval"
  shows "DecodeWithConstructors c buf1 (Some (PtrTo T, x)) cons
           = DecodeWithConstructors c buf2 (Some (PtrTo T, x)) cons"
proof -
  let ?v = "VElem (ValueOf (PtrTo T) x)"
  have "decoder_message c \<lparr>nm = cons\<rparr> buf1 ?v = decoder_message c \<lparr>nm = cons\<rparr> buf2 ?v"
  proof (cases "VKind ?v = Struct")
    case False
    then show ?thesis by (simp add: decoder_message.simps)
  next
    case True
    have "vtype ?v = T"
      using True
      by (auto simp: VElem_def ValueOf_def VKind_def ZeroValue_def split: gval.splits option.splits)
    then show ?thesis
      using True assms(2) by (cases "resolveFields T") (simp_all add: decoder_message.simps)
  qed
  then show ?thesis
    using assms(1) by (simp add: DecodeWithConstructors.simps Let_def)
qed

lemma smaller_record_after_larger:
  assumes "sorted_wrt (<) (map ID fs)" "j < length fs" "ID (fs ! j) = record_num r2"
    and "record_num r2 < record_num r1" "wf_record r1" "list_all wf_record mids" "wf_record r2"
  shows "message_loop c de fs (r1 @ concat mids @ r2 @ rest) i sval
           = message_loop c de fs (r1 @ concat mids @ rest) i sval"
proof -
  from wf_record_append [OF assms(5)] obtain wt n v vb where n: "0 < n"
    and p: "\<And>X. ConsumeTag (r1 @ X) = (record_num r1, wt, n)
               \<and> consume_wire wt (drop (nat n) (r1 @ X)) = Inr (v, vb, X)"
    by blast
  have t1: "ConsumeTag (r1 @ concat mids @ r2 @ rest) = (record_num r1, wt, n)"
    and w1: "consume_wire wt (drop (nat n) (r1 @ concat mids @ r2 @ rest))
               = Inr (v, vb, concat mids @ r2 @ rest)"
    using p [of "concat mids @ r2 @ rest"] by blast+
  have t2: "ConsumeTag (r1 @ concat mids @ rest) = (record_num r1, wt, n)"
    and w2: "consume_wire wt (drop (nat n) (r1 @ concat mids @ rest))
               = Inr (v, vb, concat mids @ rest)"
    using p [of "concat mids @ rest"] by blast+
  have k: "j < advance fs i (record_num r1)"
    using assms(4) by (intro advance_past [OF assms(1,2)]) (simp add: assms(3))
  show ?thesis
    by (rule message_loop_cong_rest [OF t1 n w1 t2 n w2 refl
          later_smaller_record_dropped [OF assms(1,2,3,7,6) k]])
qed

text \<open>
  C7. Let the entries be in strictly ascending order of their numbers and let entry \<open>j\<close>
  have the number of the record \<open>r2\<close>. Let the buffer hold a record \<open>r1\<close> with a larger
  number, then any records \<open>mids\<close>, then \<open>r2\<close>, then anything. From every cursor position
  \<open>i\<close> the record \<open>r1\<close> moves the cursor behind entry \<open>j\<close>, the loop never moves it back,
  and \<open>r2\<close> is dropped although entry \<open>j\<close> matches: the loop returns what it returns on
  the buffer without \<open>r2\<close>, for every destination, and so does
  \<^verbatim>\<open>DecodeWithConstructors\<close> on a pointer to a type with these entries.
\<close>

theorem cursor_never_goes_back:
  assumes "sorted_wrt (<) (map ID fs)" "j < length fs" "ID (fs ! j) = record_num r2"
    and "record_num r2 < record_num r1" "wf_record r1" "list_all wf_record mids" "wf_record r2"
  shows "j < advance fs i (record_num r1)
         \<and> message_loop c de fs (r1 @ concat mids @ r2 @ rest) i sval
             = message_loop c de fs (r1 @ concat mids @ rest) i sval
         \<and> (resolveFields T = Inr fs \<and> UnmarshalBinary c (PtrTo T) = None \<longrightarrow>
              DecodeWithConstructors c (r1 @ concat mids @ r2 @ rest) (Some (PtrTo T, x)) cons
                = DecodeWithConstructors c (r1 @ concat mids @ rest) (Some (PtrTo T, x)) cons)"
proof (intro conjI impI)
  show "j < advance fs i (record_num r1)"
    using assms(4) by (intro advance_past [OF assms(1,2)]) (simp add: assms(3))
  show "message_loop c de fs (r1 @ concat mids @ r2 @ rest) i sval
             = message_loop c de fs (r1 @ concat mids @ rest) i sval"
    by (rule smaller_record_after_larger [OF assms])
  assume a: "resolveFields T = Inr fs \<and> UnmarshalBinary c (PtrTo T) = None"
  show "DecodeWithConstructors c (r1 @ concat mids @ r2 @ rest) (Some (PtrTo T, x)) cons
          = DecodeWithConstructors c (r1 @ concat mids @ rest) (Some (PtrTo T, x)) cons"
  proof (rule Decode_loop_eq)
    show "UnmarshalBinary c (PtrTo T) = None" using a by simp
    fix fs' sval
    assume "resolveFields T = Inr fs'"
    then have "fs' = fs" using a by simp
    then show "message_loop c \<lparr>nm = cons\<rparr> fs' (r1 @ concat mids @ r2 @ rest) 0 sval
                 = message_loop c \<lparr>nm = cons\<rparr> fs' (r1 @ concat mids @ rest) 0 sval"
      using smaller_record_after_larger [OF assms] by simp
  qed
qed

theorem cursor_never_goes_back_witness:
  "sorted_wrt (<) (map ID (projr (resolveFields TestNestedInner)))
   \<and> map ID (projr (resolveFields TestNestedInner)) = [1, 10, 11]
   \<and> record_num [0x08, 0x05] = 1 \<and> record_num [0x50, 0x07] = 10
   \<and> wf_record [0x50, 0x07] \<and> list_all wf_record [[0x58, 0x03]] \<and> wf_record [0x08, 0x05]
   \<and> 0 < advance (projr (resolveFields TestNestedInner)) 0 10
   \<and> Decode no_methods [0x50, 0x07, 0x58, 0x03, 0x08, 0x05]
        (Some (PtrTo TestNestedInner, VPtr (Some (VStruct [VInt 0, VInt 0, VInt 0]))))
      = Inr (Some (PtrTo TestNestedInner, VPtr (Some (VStruct [VInt 0, VInt 7, VInt 3]))))"
proof -
  define fs where "fs = projr (resolveFields TestNestedInner)"
  have r: "resolveFields TestNestedInner = Inr fs" unfolding fs_def by code_simp
  have m: "map ID fs = [1, 10, 11]" unfolding fs_def by code_simp
  have s: "sorted_wrt (<) (map ID fs)" unfolding m by simp
  have l: "0 < length fs" using m by (cases fs) auto
  have n2: "record_num [0x08, 0x05] = 1" by code_simp
  have n1: "record_num [0x50, 0x07] = 10" by code_simp
  have i: "ID (fs ! 0) = record_num [0x08, 0x05]" unfolding n2 using m by (cases fs) auto
  have lt: "record_num [0x08, 0x05] < record_num [0x50, 0x07]" unfolding n1 n2 by simp
  have w1: "wf_record [0x50, 0x07]" by code_simp
  have wm: "list_all wf_record [[0x58, 0x03]]" by code_simp
  have w2: "wf_record [0x08, 0x05]" by code_simp
  have u: "UnmarshalBinary no_methods (PtrTo TestNestedInner) = None"
    by (simp add: no_methods_def)
  have e: "Decode no_methods [0x50, 0x07, 0x58, 0x03]
        (Some (PtrTo TestNestedInner, VPtr (Some (VStruct [VInt 0, VInt 0, VInt 0]))))
      = Inr (Some (PtrTo TestNestedInner, VPtr (Some (VStruct [VInt 0, VInt 7, VInt 3]))))"
    by code_simp
  note T = cursor_never_goes_back [OF s l i lt w1 wm w2, of 0 no_methods _ "[]" _ TestNestedInner]
  have a: "0 < advance fs 0 10" using T [THEN conjunct1] by (simp add: n1)
  have "DecodeWithConstructors no_methods ([0x50, 0x07] @ concat [[0x58, 0x03]] @ [0x08, 0x05] @ [])
          (Some (PtrTo TestNestedInner, VPtr (Some (VStruct [VInt 0, VInt 0, VInt 0])))) Map.empty
        = DecodeWithConstructors no_methods ([0x50, 0x07] @ concat [[0x58, 0x03]] @ [])
          (Some (PtrTo TestNestedInner, VPtr (Some (VStruct [VInt 0, VInt 0, VInt 0])))) Map.empty"
    using T [THEN conjunct2, THEN conjunct2] r u by blast
  then have d: "Decode no_methods [0x50, 0x07, 0x58, 0x03, 0x08, 0x05]
        (Some (PtrTo TestNestedInner, VPtr (Some (VStruct [VInt 0, VInt 0, VInt 0]))))
      = Decode no_methods [0x50, 0x07, 0x58, 0x03]
        (Some (PtrTo TestNestedInner, VPtr (Some (VStruct [VInt 0, VInt 0, VInt 0]))))"
    by (simp add: Decode_def)
  show ?thesis
    using s m n1 n2 w1 wm w2 a d e unfolding fs_def [symmetric] by simp
qed

text \<open>
  C6. Let \<open>u\<close> be a record whose number no entry has. The loop consumes it without an
  error and goes on with the rest of the buffer and the destination as it was, the
  cursor advanced for the number of \<open>u\<close>. If the buffer ends there, or the next tag is
  malformed, or the next record's number is not below that of \<open>u\<close>, the result is that
  of the buffer without \<open>u\<close>. If the entries ascend strictly, a record \<open>r2\<close> that comes
  later, after any records \<open>mids\<close>, with a number below that of \<open>u\<close> that an entry has,
  is dropped.
\<close>

theorem unknown_field_skipped:
  assumes "wf_record u" "list_all (\<lambda>p. ID p \<noteq> record_num u) fs"
  shows "message_loop c de fs (u @ rest) i sval
           = message_loop c de fs rest (advance fs i (record_num u)) sval
         \<and> (\<forall>b wt n. ConsumeTag rest = (b, wt, n) \<and> (0 < n \<longrightarrow> record_num u \<le> b) \<longrightarrow>
               message_loop c de fs (u @ rest) i sval = message_loop c de fs rest i sval)
         \<and> (\<forall>j r2 mids rest'.
               sorted_wrt (<) (map ID fs) \<and> j < length fs \<and> ID (fs ! j) = record_num r2
               \<and> record_num r2 < record_num u \<and> list_all wf_record mids \<and> wf_record r2
               \<and> rest = concat mids @ r2 @ rest' \<longrightarrow>
               message_loop c de fs (u @ rest) i sval
                 = message_loop c de fs (u @ concat mids @ rest') i sval)"
proof -
  from wf_record_append [OF assms(1)] obtain wt n v vb where n: "0 < n"
    and p: "\<And>X. ConsumeTag (u @ X) = (record_num u, wt, n)
               \<and> consume_wire wt (drop (nat n) (u @ X)) = Inr (v, vb, X)"
    by blast
  have t: "ConsumeTag (u @ rest) = (record_num u, wt, n)"
    and w: "consume_wire wt (drop (nat n) (u @ rest)) = Inr (v, vb, rest)"
    using p [of rest] by blast+
  have nf: "\<not> (advance fs i (record_num u) < length fs
                \<and> ID (fs ! advance fs i (record_num u)) = record_num u)"
    using assms(2) by (auto simp: list_all_length)
  have 1: "message_loop c de fs (u @ rest) i sval
             = message_loop c de fs rest (advance fs i (record_num u)) sval"
    by (rule message_loop_skip [OF t n w nf])
  have 2: "message_loop c de fs (u @ rest) i sval = message_loop c de fs rest i sval"
    if "ConsumeTag rest = (b, wt', n') \<and> (0 < n' \<longrightarrow> record_num u \<le> b)" for b wt' n'
  proof -
    have "0 < n' \<longrightarrow> advance fs (advance fs i (record_num u)) b = advance fs i b"
      using that by (auto intro: advance_advance)
    then have "message_loop c de fs rest (advance fs i (record_num u)) sval
                 = message_loop c de fs rest i sval"
      using that by (intro message_loop_cursor [where b = b and wt = wt' and n = n']) simp_all
    then show ?thesis using 1 by simp
  qed
  have 3: "message_loop c de fs (u @ rest) i sval
             = message_loop c de fs (u @ concat mids @ rest') i sval"
    if "sorted_wrt (<) (map ID fs) \<and> j < length fs \<and> ID (fs ! j) = record_num r2
          \<and> record_num r2 < record_num u \<and> list_all wf_record mids \<and> wf_record r2
          \<and> rest = concat mids @ r2 @ rest'" for j r2 mids rest'
    using that smaller_record_after_larger [of fs j r2 u mids c de rest' i sval] assms(1)
    by simp
  show ?thesis using 1 2 3 by blast
qed

theorem unknown_field_skipped_witness:
  "wf_record [0x38, 0x01] \<and> record_num [0x38, 0x01] = 7
   \<and> list_all (\<lambda>p. ID p \<noteq> record_num [0x38, 0x01]) (projr (resolveFields TestNestedInner))
   \<and> ConsumeTag [0x50, 0x07] = (10, VarintType, 1)
   \<and> message_loop no_methods \<lparr>nm = Map.empty\<rparr> (projr (resolveFields TestNestedInner))
        [0x38, 0x01, 0x50, 0x07] 0 (Addressable TestNestedInner (VStruct [VInt 0, VInt 0, VInt 0]))
      = Inr (VStruct [VInt 0, VInt 7, VInt 0])
   \<and> message_loop no_methods \<lparr>nm = Map.empty\<rparr> (projr (resolveFields TestNestedInner))
        [0x38, 0x01, 0x08, 0x05] 0 (Addressable TestNestedInner (VStruct [VInt 0, VInt 0, VInt 0]))
      = Inr (VStruct [VInt 0, VInt 0, VInt 0])"
proof -
  define fs where "fs = projr (resolveFields TestNestedInner)"
  let ?s = "Addressable TestNestedInner (VStruct [VInt 0, VInt 0, VInt 0])"
  let ?de = "\<lparr>nm = Map.empty\<rparr>"
  have m: "map ID fs = [1, 10, 11]" unfolding fs_def by code_simp
  have s: "sorted_wrt (<) (map ID fs)" unfolding m by simp
  have l: "0 < length fs" using m by (cases fs) auto
  have w: "wf_record [0x38, 0x01]" by code_simp
  have nu: "record_num [0x38, 0x01] = 7" by code_simp
  have la: "list_all (\<lambda>p. ID p \<noteq> record_num [0x38, 0x01]) fs"
    unfolding fs_def by code_simp
  have t: "ConsumeTag [0x50, 0x07] = (10, VarintType, 1)" by code_simp
  have n2: "record_num [0x08, 0x05] = 1" by code_simp
  have w2: "wf_record [0x08, 0x05]" by code_simp
  have i: "ID (fs ! 0) = record_num [0x08, 0x05]" unfolding n2 using m by (cases fs) auto
  note T = unknown_field_skipped [OF w la, of no_methods ?de _ 0 ?s]
  have b: "message_loop no_methods ?de fs ([0x38, 0x01] @ [0x50, 0x07]) 0 ?s
             = message_loop no_methods ?de fs [0x50, 0x07] 0 ?s"
    using T [of "[0x50, 0x07]", THEN conjunct2, THEN conjunct1] t nu by simp
  have c: "message_loop no_methods ?de fs ([0x38, 0x01] @ [0x08, 0x05]) 0 ?s
             = message_loop no_methods ?de fs ([0x38, 0x01] @ concat [] @ []) 0 ?s"
    using T [of "[0x08, 0x05]", THEN conjunct2, THEN conjunct2, rule_format,
             of 0 "[0x08, 0x05]" "[]" "[]"] s l i n2 nu w2 by simp
  have a: "message_loop no_methods ?de fs ([0x38, 0x01] @ []) 0 ?s
             = message_loop no_methods ?de fs [] (advance fs 0 (record_num [0x38, 0x01])) ?s"
    using T [of "[]", THEN conjunct1] .
  have e1: "message_loop no_methods ?de fs [0x50, 0x07] 0 ?s = Inr (VStruct [VInt 0, VInt 7, VInt 0])"
    unfolding fs_def by code_simp
  have e2: "message_loop no_methods ?de fs [] k ?s = Inr (VStruct [VInt 0, VInt 0, VInt 0])" for k
    by (simp add: message_loop.simps Addressable_def)
  show ?thesis
    using w nu la t b c a e1 e2 unfolding fs_def [symmetric] by simp
qed

text \<open>
  A record with a smaller number that follows the unknown one is lost. The bytes
  38 01 08 96 01 hold field 7 and then field 1 with the value 150. Decoded into
  \<^verbatim>\<open>Test1\<close>, whose only field has the number 1, they leave the field at 0 and report no
  error, while 08 96 01 alone sets it to 150.
\<close>

theorem unknown_field_counterexample:
  "Decode no_methods [0x38, 0x01, 0x08, 0x96, 0x01] (Some (PtrTo Test1, VPtr (Some (VStruct [VUint 0]))))
     = Inr (Some (PtrTo Test1, VPtr (Some (VStruct [VUint 0]))))
   \<and> Decode no_methods [0x08, 0x96, 0x01] (Some (PtrTo Test1, VPtr (Some (VStruct [VUint 0]))))
     = Inr (Some (PtrTo Test1, VPtr (Some (VStruct [VUint 150]))))"
  by code_simp


section \<open>Byte slices handed out by the decoder\<close>

lemma view_length: "valid h s \<Longrightarrow> length (view h s) = s_len s"
  by (auto simp: view_def valid_def)

lemma view_slice_from:
  "valid h s \<Longrightarrow> n \<le> s_len s \<Longrightarrow> view h (slice_from s n) = drop n (view h s)"
  by (auto simp: view_def valid_def slice_from_def drop_take add.commute)

lemma valid_slice_from: "valid h s \<Longrightarrow> n \<le> s_len s \<Longrightarrow> valid h (slice_from s n)"
  by (auto simp: valid_def slice_from_def)

lemma view_slice_to:
  "valid h s \<Longrightarrow> m \<le> s_len s \<Longrightarrow> view h (slice_to s m) = take m (view h s)"
  by (auto simp: view_def slice_to_def min_def)

lemma view_old_array:
  "valid h s2 \<Longrightarrow> view (h @ [a]) s2 = view h s2"
  by (simp add: view_def valid_def nth_append)

lemma go_append_full:
  assumes "valid h s" "s_cap s = s_len s" "valid h s2"
  shows "view (fst (go_append grow h s xs)) s2 = view h s2"
proof (cases "xs = []")
  case True
  then show ?thesis using assms by (simp add: go_append_def)
next
  case False
  then have "\<not> s_len s + length xs \<le> s_cap s" using assms(2) by simp
  then show ?thesis using assms(3) by (simp add: go_append_def view_old_array)
qed

lemma go_append_result:
  assumes "valid h s" "s_cap s = s_len s"
  shows "view (fst (go_append grow h s xs)) (snd (go_append grow h s xs)) = view h s @ xs"
proof (cases "xs = []")
  case True
  then show ?thesis using assms by (simp add: go_append_def view_def)
next
  case False
  then have "\<not> s_len s + length xs \<le> s_cap s" using assms(2) by simp
  then have "view (fst (go_append grow h s xs)) (snd (go_append grow h s xs))
               = take (s_len s + length xs) (view h s @ xs @ replicate grow 0)"
    by (simp add: go_append_def view_def)
  also have "\<dots> = view h s @ xs" by (simp add: view_length [OF assms(1)])
  finally show ?thesis .
qed

lemma ConsumeBytes_hdr_refines:
  assumes "valid h buf"
  shows "ConsumeBytes (view h buf)
           = (case ConsumeBytes_hdr h buf of
                (vb, n) \<Rightarrow> (case vb of None \<Rightarrow> [] | Some s \<Rightarrow> view h s, n))"
    and "ConsumeBytes_hdr h buf = (Some s, n) \<Longrightarrow>
           valid h (slice_full s (s_len s) (s_len s))
           \<and> view h (slice_full s (s_len s) (s_len s)) = view h s"
proof -
  obtain m n0 where c: "ConsumeVarint (view h buf) = (m, n0)"
    by (cases "ConsumeVarint (view h buf)")
  show "ConsumeBytes (view h buf)
           = (case ConsumeBytes_hdr h buf of
                (vb, n) \<Rightarrow> (case vb of None \<Rightarrow> [] | Some s \<Rightarrow> view h s, n))"
  proof (cases "n0 < 0 \<or> uint m > int (s_len buf - nat n0)")
    case True
    then show ?thesis
      by (auto simp: ConsumeBytes_def ConsumeBytes_hdr_def c slice_from_def
            view_length [OF assms])
  next
    case False
    then have n0: "0 \<le> n0" and ml: "uint m \<le> int (s_len buf - nat n0)" by auto
    have n0l: "nat n0 \<le> s_len buf"
      using ConsumeVarint_length [OF c] n0 by (auto simp: view_length [OF assms])
    define k where "k = nat (uint m)"
    have kl: "k \<le> s_len buf - nat n0" using ml unfolding k_def by linarith
    have "view h (slice_to (slice_from buf (nat n0)) k) = take k (view h (slice_from buf (nat n0)))"
      using kl by (intro view_slice_to valid_slice_from assms n0l) (simp add: slice_from_def)
    also have "\<dots> = take k (drop (nat n0) (view h buf))"
      by (simp add: view_slice_from [OF assms n0l])
    finally have v: "view h (slice_to (slice_from buf (nat n0)) k)
                       = take k (drop (nat n0) (view h buf))" .
    show ?thesis
      using n0 ml v
      by (simp add: ConsumeBytes_def ConsumeBytes_hdr_def c slice_from_def k_def
            view_length [OF assms] not_less)
  qed
  assume a: "ConsumeBytes_hdr h buf = (Some s, n)"
  have n0: "0 \<le> n0" and ml: "uint m \<le> int (s_len buf - nat n0)"
    and s: "s = slice_to (slice_from buf (nat n0)) (nat (uint m))"
    using a by (auto simp: ConsumeBytes_hdr_def c slice_from_def split: if_splits)
  have n0l: "nat n0 \<le> s_len buf"
    using ConsumeVarint_length [OF c] n0 by (auto simp: view_length [OF assms])
  have kl: "nat (uint m) \<le> s_len buf - nat n0" using ml by linarith
  show "valid h (slice_full s (s_len s) (s_len s))
           \<and> view h (slice_full s (s_len s) (s_len s)) = view h s"
    using assms n0l kl
    by (auto simp: valid_def s slice_full_def slice_to_def slice_from_def view_def)
qed

lemma consume_wire_hdr_refines:
  assumes "valid h buf"
  shows "consume_wire wiretype (view h buf)
           = (case consume_wire_hdr h wiretype buf of
                Inl e \<Rightarrow> Inl e
              | Inr (v, vb, rest) \<Rightarrow>
                  Inr (v, (case vb of None \<Rightarrow> [] | Some s \<Rightarrow> view h s), view h rest))"
proof -
  have r: "view h (slice_from buf (nat n)) = drop (nat n) (view h buf)"
    if "n \<le> int (length (view h buf))" for n
    using that by (intro view_slice_from assms) (simp add: view_length [OF assms])
  consider "wiretype = VarintType" | "wiretype = Fixed32Type" | "wiretype = Fixed64Type"
    | "wiretype = BytesType"
    | "wiretype \<noteq> VarintType" "wiretype \<noteq> Fixed32Type" "wiretype \<noteq> Fixed64Type"
      "wiretype \<noteq> BytesType"
    by blast
  then show ?thesis
  proof cases
    case 1
    obtain v n where c: "ConsumeVarint (view h buf) = (v, n)"
      by (cases "ConsumeVarint (view h buf)")
    show ?thesis
      using ConsumeVarint_length [OF c] by (simp add: 1 consume_wire_def consume_wire_hdr_def c r)
  next
    case 2
    obtain v n where c: "ConsumeFixed32 (view h buf) = (v, n)"
      by (cases "ConsumeFixed32 (view h buf)")
    have "n \<le> int (length (view h buf))" using c by (auto simp: ConsumeFixed32_def split: if_splits)
    then show ?thesis by (simp add: 2 consume_wire_def consume_wire_hdr_def c r)
  next
    case 3
    obtain v n where c: "ConsumeFixed64 (view h buf) = (v, n)"
      by (cases "ConsumeFixed64 (view h buf)")
    have "n \<le> int (length (view h buf))" using c by (auto simp: ConsumeFixed64_def split: if_splits)
    then show ?thesis by (simp add: 3 consume_wire_def consume_wire_hdr_def c r)
  next
    case 4
    obtain vb n where c: "ConsumeBytes_hdr h buf = (vb, n)"
      by (cases "ConsumeBytes_hdr h buf")
    have cb: "ConsumeBytes (view h buf) = (case vb of None \<Rightarrow> [] | Some s \<Rightarrow> view h s, n)"
      using ConsumeBytes_hdr_refines(1) [OF assms] by (simp add: c)
    have nl: "n \<le> int (length (view h buf))" if "0 < n"
      using ConsumeBytes_length [OF cb that] by simp
    have vs: "view h (slice_full s (s_len s) (s_len s)) = view h s" if "vb = Some s" for s
      using ConsumeBytes_hdr_refines(2) [OF assms] c that by auto
    show ?thesis
      using nl by (cases vb) (auto simp: 4 consume_wire_def consume_wire_hdr_def c cb r vs)
  next
    case 5
    then show ?thesis by (simp add: consume_wire_def consume_wire_hdr_def)
  qed
qed

lemma putvalue_byte_slice:
  assumes "CanSet val" "Kind (vtype val) = Slice" "Kind (Elem (vtype val)) = Uint8"
  shows "putvalue c de wiretype val v vb
           = (if wiretype \<noteq> BytesType then Inl (Returned (Err ''bad wiretype for repeated field''))
              else Inr (VSlice (Some (map (\<lambda>b. VUint (ucast b)) vb))))"
  using assms
  by (subst putvalue.simps) (simp add: VKind_def Let_def decoder_slice.simps)

text \<open>
  C9. Take a buffer that lies within its array and a settable destination whose kind
  is \<^verbatim>\<open>Slice\<close> with elements of kind \<^verbatim>\<open>Uint8\<close>. \<^verbatim>\<open>decoder.value\<close>, through \<^verbatim>\<open>putvalue\<close>
  and \<^verbatim>\<open>decoder.slice\<close>, fails exactly when its twin on headers fails, with the same
  error, and otherwise leaves in the destination the elements of the header the twin
  stores there and returns the elements of the twin's rest. That header is the payload
  with its capacity cut to its length, which is the length of the payload. An
  \<^verbatim>\<open>append\<close> to it, of any bytes and with any growth, leaves the elements of every
  slice of the heap as they were, so those of an adjacent field too, and returns the
  payload followed by the new bytes.
\<close>

theorem decoded_bytes_keep_no_capacity:
  assumes "valid h buf" and "CanSet val"
    and "Kind (vtype val) = Slice" and "Kind (Elem (vtype val)) = Uint8"
  shows "decoder_value c de wiretype (view h buf) val
           = (case decoder_value_hdr h wiretype buf of
                Inl e \<Rightarrow> Inl e
              | Inr (rest, dst) \<Rightarrow> Inr (view h rest, bytes_value h dst))
         \<and> (\<forall>rest dst. decoder_value_hdr h wiretype buf = Inr (rest, dst) \<longrightarrow>
              (\<exists>vb. dst = Some vb \<and> valid h vb \<and> s_cap vb = s_len vb
                 \<and> s_len vb = length (view h vb)
                 \<and> (\<forall>grow xs s2. valid h s2 \<longrightarrow>
                       view (fst (go_append grow h vb xs)) s2 = view h s2)
                 \<and> (\<forall>grow xs. view (fst (go_append grow h vb xs))
                                  (snd (go_append grow h vb xs)) = view h vb @ xs)))"
proof (intro conjI allI impI)
  show "decoder_value c de wiretype (view h buf) val
           = (case decoder_value_hdr h wiretype buf of
                Inl e \<Rightarrow> Inl e
              | Inr (rest, dst) \<Rightarrow> Inr (view h rest, bytes_value h dst))"
    by (cases "consume_wire_hdr h wiretype buf")
       (auto simp: decoder_value_def decoder_value_with_def decoder_value_hdr_def
          consume_wire_hdr_refines [OF assms(1)] putvalue_byte_slice [OF assms(2,3,4)]
          putvalue_hdr_def SetBytes_def bytes_value_def)
next
  fix rest dst
  assume a: "decoder_value_hdr h wiretype buf = Inr (rest, dst)"
  then have wt: "wiretype = BytesType"
    by (auto simp: decoder_value_hdr_def putvalue_hdr_def bindE_def split: sum.splits if_splits)
  obtain vb0 n where c: "ConsumeBytes_hdr h buf = (vb0, n)" by (cases "ConsumeBytes_hdr h buf")
  have n: "0 < n" and d: "dst = map_option (\<lambda>s. slice_full s (s_len s) (s_len s)) vb0"
    using a
    by (auto simp: decoder_value_hdr_def putvalue_hdr_def SetBytes_def consume_wire_hdr_def wt c
          split: if_splits)
  obtain s where s: "vb0 = Some s"
    using c n by (cases vb0) (auto simp: ConsumeBytes_hdr_def split: prod.splits if_splits)
  define vb where "vb = slice_full s (s_len s) (s_len s)"
  have 1: "dst = Some vb" by (simp add: d s vb_def)
  have 2: "valid h vb"
    using ConsumeBytes_hdr_refines(2) [OF assms(1) c [unfolded s]] by (simp add: vb_def)
  have 3: "s_cap vb = s_len vb" by (simp add: vb_def slice_full_def)
  have 4: "s_len vb = length (view h vb)" by (simp add: view_length [OF 2])
  show "\<exists>vb. dst = Some vb \<and> valid h vb \<and> s_cap vb = s_len vb
                 \<and> s_len vb = length (view h vb)
                 \<and> (\<forall>grow xs s2. valid h s2 \<longrightarrow>
                       view (fst (go_append grow h vb xs)) s2 = view h s2)
                 \<and> (\<forall>grow xs. view (fst (go_append grow h vb xs))
                                  (snd (go_append grow h vb xs)) = view h vb @ xs)"
    using 1 2 3 4 go_append_full [OF 2 3] go_append_result [OF 2 3] by blast
qed

text \<open>With the capacity \<^verbatim>\<open>ConsumeBytes\<close> leaves, the same \<^verbatim>\<open>append\<close> writes into the next
  field.\<close>

lemma retained_capacity_overwrites:
  "view (fst (go_append 0 two_fields \<lparr>s_arr = 0, s_off = 2, s_len = 2, s_cap = 6\<rparr> [0x58]))
        \<lparr>s_arr = 0, s_off = 4, s_len = 4, s_cap = 4\<rparr> = [0x58, 0x02, 0x63, 0x64]"
  by code_simp

theorem decoded_bytes_keep_no_capacity_witness:
  "valid two_fields \<lparr>s_arr = 0, s_off = 1, s_len = 7, s_cap = 7\<rparr>
   \<and> CanSet (Addressable (SliceOf (Basic Uint8)) (VSlice None))
   \<and> decoder_value_hdr two_fields BytesType \<lparr>s_arr = 0, s_off = 1, s_len = 7, s_cap = 7\<rparr>
       = Inr (\<lparr>s_arr = 0, s_off = 4, s_len = 4, s_cap = 4\<rparr>,
              Some \<lparr>s_arr = 0, s_off = 2, s_len = 2, s_cap = 2\<rparr>)
   \<and> decoder_value no_methods \<lparr>nm = Map.empty\<rparr> BytesType [0x02, 0x61, 0x62, 0x12, 0x02, 0x63, 0x64]
        (Addressable (SliceOf (Basic Uint8)) (VSlice None))
       = Inr ([0x12, 0x02, 0x63, 0x64], VSlice (Some [VUint 0x61, VUint 0x62]))
   \<and> view (fst (go_append 0 two_fields \<lparr>s_arr = 0, s_off = 2, s_len = 2, s_cap = 2\<rparr> [0x58]))
        \<lparr>s_arr = 0, s_off = 4, s_len = 4, s_cap = 4\<rparr> = [0x12, 0x02, 0x63, 0x64]"
proof -
  let ?buf = "\<lparr>s_arr = 0, s_off = 1, s_len = 7, s_cap = 7\<rparr>"
  let ?vb = "\<lparr>s_arr = 0, s_off = 2, s_len = 2, s_cap = 2\<rparr>"
  let ?rest = "\<lparr>s_arr = 0, s_off = 4, s_len = 4, s_cap = 4\<rparr>"
  let ?val = "Addressable (SliceOf (Basic Uint8)) (VSlice None)"
  have a: "valid two_fields ?buf" by code_simp
  have s: "CanSet ?val" "Kind (vtype ?val) = Slice" "Kind (Elem (vtype ?val)) = Uint8"
    by (simp_all add: Addressable_def CanSet_def flagRO_def)
  have b: "decoder_value_hdr two_fields BytesType ?buf = Inr (?rest, Some ?vb)" by code_simp
  have c: "valid two_fields ?rest" by code_simp
  have v: "view two_fields ?buf = [0x02, 0x61, 0x62, 0x12, 0x02, 0x63, 0x64]" by code_simp
  have e: "view two_fields ?rest = [0x12, 0x02, 0x63, 0x64]" by code_simp
  have bv: "bytes_value two_fields (Some ?vb) = VSlice (Some [VUint 0x61, VUint 0x62])"
    by code_simp
  note T = decoded_bytes_keep_no_capacity [OF a s, of no_methods "\<lparr>nm = Map.empty\<rparr>" BytesType]
  have d: "decoder_value no_methods \<lparr>nm = Map.empty\<rparr> BytesType (view two_fields ?buf) ?val
            = Inr (view two_fields ?rest, bytes_value two_fields (Some ?vb))"
    using T [THEN conjunct1] unfolding b by simp
  from T [THEN conjunct2] b
  have "\<forall>grow xs s2. valid two_fields s2 \<longrightarrow>
          view (fst (go_append grow two_fields ?vb xs)) s2 = view two_fields s2"
    by blast
  then have "view (fst (go_append 0 two_fields ?vb [0x58])) ?rest = view two_fields ?rest"
    using c by blast
  then show ?thesis using a s(1) b d unfolding v e bv by simp
qed

section \<open>The round trip\<close>

lemma fixed_kinds:
  "Kind timeType = Struct" "Kind sfixed32type = Int32" "Kind sfixed64type = Int64"
  "Kind ufixed32type = Uint32" "Kind ufixed64type = Uint64"
  by (simp_all add: timeType_def sfixed32type_def sfixed64type_def ufixed32type_def
        ufixed64type_def)





lemma not_fixed_signed:
  "Kind t = Int32 \<or> Kind t = Int64 \<Longrightarrow> t \<noteq> ufixed32type \<and> t \<noteq> ufixed64type"
  by (auto simp: fixed_kinds)

lemma not_fixed_unsigned:
  "Kind t = Uint32 \<or> Kind t = Uint64 \<Longrightarrow> t \<noteq> sfixed32type \<and> t \<noteq> sfixed64type"
  by (auto simp: fixed_kinds)







lemma Addressable_simps [simp]:
  "vtype (Addressable t x) = t" "vdata (Addressable t x) = x" "CanSet (Addressable t x)"
  "VKind (Addressable t x) = Kind t" "(Addressable t x)\<lparr>vdata := y\<rparr> = Addressable t y"
  by (simp_all add: Addressable_def CanSet_def flagRO_def VKind_def)










end
